theory Spec2Isabelle
  imports Main "HOL-Library.Char_ord" "HOL-Library.List_Lexorder" "HOL-Library.Monad_Syntax"
begin

section \<open>Strings and arrays of strings\<close>

text \<open>
  JavaScript strings are modelled as \<^typ>\<open>string\<close>; \<open>===\<close> on strings is equality of
  lists. \<open>Array.prototype.sort()\<close> without a comparator orders strings by their code
  units, which is the lexicographic order on \<^typ>\<open>char list\<close> induced by the character
  codes; on a duplicate-free array its result is \<^const>\<open>sort\<close>.

  \<open>lodash.uniq\<close> keeps the first occurrence of every element, in order.
\<close>

fun uniq_acc :: "'a list \<Rightarrow> 'a list \<Rightarrow> 'a list" where
  "uniq_acc acc [] = acc"
| "uniq_acc acc (x # xs) = uniq_acc (if x \<in> set acc then acc else acc @ [x]) xs"

definition uniq :: "'a list \<Rightarrow> 'a list" where
  "uniq xs = uniq_acc [] xs"

definition startsWith :: "string \<Rightarrow> string \<Rightarrow> bool" where
  "startsWith s p = (take (length p) s = p)"

definition substr :: "string \<Rightarrow> nat \<Rightarrow> string" where
  "substr s n = drop n s"

text \<open>\<open>/^@/.test(s)\<close>\<close>

definition testAt :: "string \<Rightarrow> bool" where
  "testAt s = (case s of [] \<Rightarrow> False | ch # _ \<Rightarrow> ch = CHR ''@'')"

text \<open>\<open>s.split('/').pop()\<close>: the part of \<open>s\<close> after its last slash.\<close>

definition splitPop :: "string \<Rightarrow> string" where
  "splitPop s = rev (takeWhile (\<lambda>ch. ch \<noteq> CHR ''/'') (rev s))"

section \<open>The metamodel graph\<close>

record GraphNode =
  NodeId :: string
  NodeValue :: "string option"

record GraphEdge =
  SourceNode :: GraphNode
  TargetNode :: GraphNode
  Label :: string

record DigitalTwinMetaModelGraph =
  Nodes :: "GraphNode list"
  Edges :: "GraphEdge list"

definition LABEL_DOMAIN :: string where
  "LABEL_DOMAIN = ''http://www.w3.org/2000/01/rdf-schema#domain''"

definition LABEL_LABEL :: string where
  "LABEL_LABEL = ''http://www.w3.org/2000/01/rdf-schema#label''"

definition LABEL_SUBCLASS :: string where
  "LABEL_SUBCLASS = ''http://www.w3.org/2000/01/rdf-schema#subClassOf''"

definition LABEL_RANGE :: string where
  "LABEL_RANGE = ''http://www.w3.org/2000/01/rdf-schema#range''"

definition LABEL_TYPE :: string where
  "LABEL_TYPE = ''http://www.w3.org/1999/02/22-rdf-syntax-ns#type''"

definition LABEL_COMMENT :: string where
  "LABEL_COMMENT = ''http://www.w3.org/2000/01/rdf-schema#comment''"

definition LANGUAGE_CODES :: "string list" where
  "LANGUAGE_CODES = [
   ''af'', ''af-ZA'', ''ar'', ''ar-AE'', ''ar-BH'', ''ar-DZ'', ''ar-EG'', ''ar-IQ'',
   ''ar-JO'', ''ar-KW'', ''ar-LB'', ''ar-LY'', ''ar-MA'', ''ar-OM'', ''ar-QA'', ''ar-SA'',
   ''ar-SY'', ''ar-TN'', ''ar-YE'', ''az'', ''az-AZ'', ''az-AZ'', ''be'', ''be-BY'',
   ''bg'', ''bg-BG'', ''bs-BA'', ''ca'', ''ca-ES'', ''cs'', ''cs-CZ'', ''cy'', ''cy-GB'',
   ''da'', ''da-DK'', ''de'', ''de-AT'', ''de-CH'', ''de-DE'', ''de-LI'', ''de-LU'',
   ''dv'', ''dv-MV'', ''el'', ''el-GR'', ''en'', ''en-AU'', ''en-BZ'', ''en-CA'',
   ''en-CB'', ''en-GB'', ''en-IE'', ''en-JM'', ''en-NZ'', ''en-PH'', ''en-TT'', ''en-US'',
   ''en-ZA'', ''en-ZW'', ''eo'', ''es'', ''es-AR'', ''es-BO'', ''es-CL'', ''es-CO'',
   ''es-CR'', ''es-DO'', ''es-EC'', ''es-ES'', ''es-ES'', ''es-GT'', ''es-HN'', ''es-MX'',
   ''es-NI'', ''es-PA'', ''es-PE'', ''es-PR'', ''es-PY'', ''es-SV'', ''es-UY'', ''es-VE'',
   ''et'', ''et-EE'', ''eu'', ''eu-ES'', ''fa'', ''fa-IR'', ''fi'', ''fi-FI'', ''fo'',
   ''fo-FO'', ''fr'', ''fr-BE'', ''fr-CA'', ''fr-CH'', ''fr-FR'', ''fr-LU'', ''fr-MC'',
   ''gl'', ''gl-ES'', ''gu'', ''gu-IN'', ''he'', ''he-IL'', ''hi'', ''hi-IN'', ''hr'',
   ''hr-BA'', ''hr-HR'', ''hu'', ''hu-HU'', ''hy'', ''hy-AM'', ''id'', ''id-ID'', ''is'',
   ''is-IS'', ''it'', ''it-CH'', ''it-IT'', ''ja'', ''ja-JP'', ''ka'', ''ka-GE'', ''kk'',
   ''kk-KZ'', ''kn'', ''kn-IN'', ''ko'', ''ko-KR'', ''kok'', ''kok-IN'', ''ky'',
   ''ky-KG'', ''lt'', ''lt-LT'', ''lv'', ''lv-LV'', ''mi'', ''mi-NZ'', ''mk'', ''mk-MK'',
   ''mn'', ''mn-MN'', ''mr'', ''mr-IN'', ''ms'', ''ms-BN'', ''ms-MY'', ''mt'', ''mt-MT'',
   ''nb'', ''nb-NO'', ''nl'', ''nl-BE'', ''nl-NL'', ''nn-NO'', ''ns'', ''ns-ZA'', ''pa'',
   ''pa-IN'', ''pl'', ''pl-PL'', ''ps'', ''ps-AR'', ''pt'', ''pt-BR'', ''pt-PT'', ''qu'',
   ''qu-BO'', ''qu-EC'', ''qu-PE'', ''ro'', ''ro-RO'', ''ru'', ''ru-RU'', ''sa'',
   ''sa-IN'', ''se'', ''se-FI'', ''se-FI'', ''se-FI'', ''se-NO'', ''se-NO'', ''se-NO'',
   ''se-SE'', ''se-SE'', ''se-SE'', ''sk'', ''sk-SK'', ''sl'', ''sl-SI'', ''sq'',
   ''sq-AL'', ''sr-BA'', ''sr-BA'', ''sr-SP'', ''sr-SP'', ''sv'', ''sv-FI'', ''sv-SE'',
   ''sw'', ''sw-KE'', ''syr'', ''syr-SY'', ''ta'', ''ta-IN'', ''te'', ''te-IN'', ''th'',
   ''th-TH'', ''tl'', ''tl-PH'', ''tn'', ''tn-ZA'', ''tr'', ''tr-TR'', ''tt'', ''tt-RU'',
   ''ts'', ''uk'', ''uk-UA'', ''ur'', ''ur-PK'', ''uz'', ''uz-UZ'', ''uz-UZ'', ''vi'',
   ''vi-VN'', ''xh'', ''xh-ZA'', ''zh'', ''zh-CN'', ''zh-HK'', ''zh-MO'', ''zh-SG'',
   ''zh-TW'', ''zu'', ''zu-ZA'']"

section \<open>The document context\<close>

text \<open>
  The type \<open>DigitalTwinMetaModelContext\<close> is declared in a module that is not part of
  the sources at hand; it is modelled from the way the parser reads it. The object
  \<open>dtContext['@context']\<close> is the list of its own properties in the order of
  \<open>Object.keys\<close> (keys are distinct in a JavaScript object); a property value is a
  string, or an object with an \<open>@id\<close> and an optional \<open>@container\<close>. The entry
  \<open>@vocab\<close> is declared to be a string; where it is missing the model uses the
  string that JavaScript's concatenation makes of \<open>undefined\<close>.
\<close>

datatype ContextValue =
    CtxString string
  | CtxObject string "string option"

type_synonym DigitalTwinMetaModelContext = "(string \<times> ContextValue) list"

definition vocab :: "DigitalTwinMetaModelContext \<Rightarrow> string" where
  "vocab ctx =
     (case map_of ctx ''@vocab'' of
        Some (CtxString s) \<Rightarrow> s
      | Some (CtxObject _ _) \<Rightarrow> ''[object Object]''
      | None \<Rightarrow> ''undefined'')"

text \<open>\<open>typeof item === 'string' ? item : item['@id']\<close>\<close>

fun pathOf :: "ContextValue \<Rightarrow> string" where
  "pathOf (CtxString s) = s"
| "pathOf (CtxObject i _) = i"

section \<open>The parser and its memo tables\<close>

record TypedProperty =
  label :: string
  required :: bool
  type :: string

text \<open>
  The field \<open>cache\<close> of the parser: one table per memoized query, each keyed by a
  string. A table is a dictionary of own properties (\<open>{}\<close> at construction); the
  tables \<open>IdFromLabel\<close> and \<open>CommnetFromId\<close> are not read by any query modelled here.
\<close>

record ParserCache =
  PropertyNameFromId :: "string \<rightharpoonup> string"
  TypesFromId :: "string \<rightharpoonup> string list"
  ValueTypesFromId :: "string \<rightharpoonup> string list"
  StringValuesFromId :: "string \<rightharpoonup> string list"
  PropertiesFromId :: "string \<rightharpoonup> string list"
  TypedPropertiesFromId :: "string \<rightharpoonup> TypedProperty list"
  ShortNameFromLabel :: "string \<rightharpoonup> string option"

definition emptyCache :: ParserCache where
  "emptyCache = \<lparr> PropertyNameFromId = Map.empty, TypesFromId = Map.empty,
     ValueTypesFromId = Map.empty, StringValuesFromId = Map.empty,
     PropertiesFromId = Map.empty, TypedPropertiesFromId = Map.empty,
     ShortNameFromLabel = Map.empty \<rparr>"

definition getIdFromShortName :: "DigitalTwinMetaModelContext \<Rightarrow> string \<Rightarrow> string option" where
  "getIdFromShortName ctx shortName =
     (case map_of ctx shortName of
        Some shortNameValue \<Rightarrow> Some (vocab ctx @ pathOf shortNameValue)
      | None \<Rightarrow> None)"

definition getIdFromLabel :: "DigitalTwinMetaModelContext \<Rightarrow> string \<Rightarrow> string" where
  "getIdFromLabel ctx lbl = vocab ctx @ lbl"

definition getIdFromType :: "DigitalTwinMetaModelContext \<Rightarrow> string \<Rightarrow> string" where
  "getIdFromType ctx ty =
     (let lbl = (case map_of ctx ty of Some v \<Rightarrow> pathOf v | None \<Rightarrow> [])
      in getIdFromLabel ctx (if lbl = [] then ty else lbl))"

text \<open>The scan of \<open>getPropertyNameFromId\<close> over \<open>Object.keys(context)\<close>.\<close>

fun propertyNameScan :: "string \<Rightarrow> string \<Rightarrow> DigitalTwinMetaModelContext \<Rightarrow> string option" where
  "propertyNameScan base ident [] = None"
| "propertyNameScan base ident ((key, item) # rest) =
     (if base @ pathOf item = ident then Some key else propertyNameScan base ident rest)"

definition getPropertyNameFromId ::
  "DigitalTwinMetaModelContext \<Rightarrow> ParserCache \<Rightarrow> string \<Rightarrow> string \<times> ParserCache" where
  "getPropertyNameFromId ctx c ident =
     (case PropertyNameFromId c ident of
        Some cached \<Rightarrow>
          if cached \<noteq> [] then (cached, c)
          else (case propertyNameScan (vocab ctx) ident ctx of
                  Some key \<Rightarrow> (key, c\<lparr>PropertyNameFromId := (PropertyNameFromId c)(ident \<mapsto> key)\<rparr>)
                | None \<Rightarrow> (ident, c))
      | None \<Rightarrow>
          (case propertyNameScan (vocab ctx) ident ctx of
             Some key \<Rightarrow> (key, c\<lparr>PropertyNameFromId := (PropertyNameFromId c)(ident \<mapsto> key)\<rparr>)
           | None \<Rightarrow> (ident, c)))"

definition getLabelFromId :: "DigitalTwinMetaModelContext \<Rightarrow> string \<Rightarrow> string" where
  "getLabelFromId ctx ident =
     (let lbl = (if startsWith ident (vocab ctx) then substr ident (length (vocab ctx)) else [])
      in if lbl \<noteq> [] then lbl else ident)"

fun shortNameFromLabelScan :: "string \<Rightarrow> DigitalTwinMetaModelContext \<Rightarrow> string option" where
  "shortNameFromLabelScan lbl [] = None"
| "shortNameFromLabelScan lbl ((key, item) # rest) =
     (if pathOf item = lbl then Some key else shortNameFromLabelScan lbl rest)"

definition getShortNameFromLabel ::
  "DigitalTwinMetaModelContext \<Rightarrow> ParserCache \<Rightarrow> string \<Rightarrow> string option \<times> ParserCache" where
  "getShortNameFromLabel ctx c lbl =
     (case ShortNameFromLabel c lbl of
        Some cached \<Rightarrow> (cached, c)
      | None \<Rightarrow>
          (case shortNameFromLabelScan lbl ctx of
             Some key \<Rightarrow> (Some key, c\<lparr>ShortNameFromLabel := (ShortNameFromLabel c)(lbl \<mapsto> Some key)\<rparr>)
           | None \<Rightarrow>
               if CHR ''/'' \<notin> set lbl
               then (Some lbl, c\<lparr>ShortNameFromLabel := (ShortNameFromLabel c)(lbl \<mapsto> Some lbl)\<rparr>)
               else (None, c\<lparr>ShortNameFromLabel := (ShortNameFromLabel c)(lbl \<mapsto> None)\<rparr>)))"

definition isArrayFromShortName :: "string \<Rightarrow> bool" where
  "isArrayFromShortName shortName =
     (shortName \<in> set [''contents'', ''schemas'', ''fields'', ''enumValues'', ''implements''])"

fun shortNameFromIdScan :: "string \<Rightarrow> string \<Rightarrow> DigitalTwinMetaModelContext \<Rightarrow> string option" where
  "shortNameFromIdScan base ident [] = None"
| "shortNameFromIdScan base ident ((shortName, shortNameValue) # rest) =
     (if testAt shortName then shortNameFromIdScan base ident rest
      else if ident = base @ pathOf shortNameValue then Some shortName
      else shortNameFromIdScan base ident rest)"

definition getShortNameFromId :: "DigitalTwinMetaModelContext \<Rightarrow> string \<Rightarrow> string" where
  "getShortNameFromId ctx ident =
     (case shortNameFromIdScan (vocab ctx) ident ctx of
        Some shortName \<Rightarrow> shortName
      | None \<Rightarrow>
          if startsWith ident ''http://www.w3.org'' then splitPop ident
          else if startsWith ident (vocab ctx) then substr ident (length (vocab ctx))
          else ident)"

fun internationalizationScan :: "string \<Rightarrow> string \<Rightarrow> DigitalTwinMetaModelContext \<Rightarrow> bool" where
  "internationalizationScan base ident [] = False"
| "internationalizationScan base ident ((shortName, shortNameValue) # rest) =
     (if testAt shortName then internationalizationScan base ident rest
      else (case shortNameValue of
              CtxString _ \<Rightarrow> internationalizationScan base ident rest
            | CtxObject i container \<Rightarrow>
                if ident = base @ i then container = Some ''@language''
                else internationalizationScan base ident rest))"

definition isInternationalizationFromId :: "DigitalTwinMetaModelContext \<Rightarrow> string \<Rightarrow> bool" where
  "isInternationalizationFromId ctx ident = internationalizationScan (vocab ctx) ident ctx"

definition getRequiredPropertiesFromType :: "string \<Rightarrow> string list" where
  "getRequiredPropertiesFromType ty =
     (if ty = ''Interface'' then [''@id'', ''@type'', ''@context'']
      else if ty = ''Telemetry'' then [''@type'', ''name'', ''schema'']
      else if ty = ''Property'' then [''@type'', ''name'', ''schema'']
      else if ty = ''Command'' then [''@type'', ''name'']
      else if ty = ''Array'' then [''@type'', ''elementSchema'']
      else if ty = ''Enum'' then [''@type'', ''enumValues'']
      else if ty = ''EnumValue'' then [''name'']
      else if ty = ''Map'' then [''@type'', ''mapKey'', ''mapValue'']
      else if ty = ''MapKey'' then [''name'', ''schema'']
      else if ty = ''MapValue'' then [''name'', ''schema'']
      else if ty = ''Object'' then [''@type'', ''fields'']
      else if ty = ''SchemaField'' then [''name'', ''schema'']
      else if ty \<in> set [''Boolean'', ''Bytes'', ''Date'', ''DateTime'', ''Duration'', ''Float'',
                          ''Integer'', ''Long'', ''String'', ''Time''] then [''@type'']
      else if ty = ''CapabilityModel'' then [''@id'', ''@type'', ''@context'', ''implements'']
      else if ty = ''InterfaceInstance'' then [''name'', ''schema'']
      else [])"

text \<open>The case labels of the \<open>switch\<close> in \<open>getRequiredPropertiesFromType\<close>.\<close>

definition requiredPropertiesTypes :: "string list" where
  "requiredPropertiesTypes =
     [''Interface'', ''Telemetry'', ''Property'', ''Command'', ''Array'', ''Enum'', ''EnumValue'',
      ''Map'', ''MapKey'', ''MapValue'', ''Object'', ''SchemaField'', ''Boolean'', ''Bytes'',
      ''Date'', ''DateTime'', ''Duration'', ''Float'', ''Integer'', ''Long'', ''String'', ''Time'',
      ''CapabilityModel'', ''InterfaceInstance'']"


subsection \<open>The memoized graph traversals\<close>

text \<open>
  The three traversals recurse along edges of the graph and write their memo table only
  after the loop over the edges has finished, so on a graph with a cycle the recursion
  need not end. They are modelled with fuel: the first argument bounds the depth of the
  recursion, every call consumes one unit, and \<open>None\<close> is the value of a call that did
  not return within the bound. A call that returns gives its result together with the
  updated tables.
\<close>

type_synonym 'a Traversal = "ParserCache \<Rightarrow> string \<Rightarrow> ('a \<times> ParserCache) option"

fun propertiesLoop ::
  "string list Traversal \<Rightarrow> DigitalTwinMetaModelContext \<Rightarrow> string \<Rightarrow> GraphEdge list \<Rightarrow>
   string list \<Rightarrow> ParserCache \<Rightarrow> (string list \<times> ParserCache) option" where
  "propertiesLoop rec ctx ident [] properties c = Some (properties, c)"
| "propertiesLoop rec ctx ident (edge # rest) properties c =
     (if NodeId (TargetNode edge) = ident \<and> Label edge = LABEL_DOMAIN then
        (case getPropertyNameFromId ctx c (NodeId (SourceNode edge)) of
           (name, c1) \<Rightarrow> propertiesLoop rec ctx ident rest (properties @ [name]) c1)
      else if NodeId (SourceNode edge) = ident \<and> Label edge = LABEL_SUBCLASS then
        (case rec c (NodeId (TargetNode edge)) of
           None \<Rightarrow> None
         | Some (super, c1) \<Rightarrow> propertiesLoop rec ctx ident rest (properties @ super) c1)
      else propertiesLoop rec ctx ident rest properties c)"

primrec getPropertiesFromId ::
  "nat \<Rightarrow> DigitalTwinMetaModelGraph \<Rightarrow> DigitalTwinMetaModelContext \<Rightarrow> string list Traversal" where
  "getPropertiesFromId 0 g ctx = (\<lambda>c ident. None)"
| "getPropertiesFromId (Suc n) g ctx = (\<lambda>c ident.
     case PropertiesFromId c ident of
       Some cached \<Rightarrow> Some (cached, c)
     | None \<Rightarrow>
         (case (if isInternationalizationFromId ctx ident then Some (LANGUAGE_CODES, c)
                else propertiesLoop (getPropertiesFromId n g ctx) ctx ident (Edges g) [] c) of
            None \<Rightarrow> None
          | Some (properties, c1) \<Rightarrow>
              let keys = sort (uniq properties)
              in Some (keys, c1\<lparr>PropertiesFromId := (PropertiesFromId c1)(ident \<mapsto> keys)\<rparr>)))"

text \<open>
  The statement \<open>if (cond) { xs = xs.concat(this.f(dtContext, id)); }\<close>, which the loops
  of \<open>getTypesFromId\<close> and \<open>getStringValuesFromId\<close> repeat.
\<close>

definition concatIf ::
  "bool \<Rightarrow> 'a list Traversal \<Rightarrow> string \<Rightarrow> 'a list \<Rightarrow> ParserCache \<Rightarrow>
   ('a list \<times> ParserCache) option" where
  "concatIf cond rec ident xs c =
     (if cond then (case rec c ident of None \<Rightarrow> None | Some (r, c') \<Rightarrow> Some (xs @ r, c'))
      else Some (xs, c))"

fun typesLoop ::
  "string list Traversal \<Rightarrow> string \<Rightarrow> GraphEdge list \<Rightarrow>
   string list \<Rightarrow> ParserCache \<Rightarrow> (string list \<times> ParserCache) option" where
  "typesLoop rec ident [] types c = Some (types, c)"
| "typesLoop rec ident (edge # rest) types c =
     (case concatIf (NodeId (SourceNode edge) = ident \<and> Label edge = LABEL_RANGE)
             rec (NodeId (TargetNode edge)) types c of
        None \<Rightarrow> None
      | Some (types1, c1) \<Rightarrow>
          (case concatIf (NodeId (TargetNode edge) = ident \<and> Label edge = LABEL_SUBCLASS)
                  rec (NodeId (SourceNode edge)) types1 c1 of
             None \<Rightarrow> None
           | Some (types2, c2) \<Rightarrow> typesLoop rec ident rest types2 c2))"

primrec getTypesFromId ::
  "nat \<Rightarrow> DigitalTwinMetaModelGraph \<Rightarrow> DigitalTwinMetaModelContext \<Rightarrow> string list Traversal" where
  "getTypesFromId 0 g ctx = (\<lambda>c ident. None)"
| "getTypesFromId (Suc n) g ctx = (\<lambda>c ident.
     case TypesFromId c ident of
       Some cached \<Rightarrow> Some (cached, c)
     | None \<Rightarrow>
         (case typesLoop (getTypesFromId n g ctx) ident (Edges g) [] c of
            None \<Rightarrow> None
          | Some (types, c1) \<Rightarrow>
              (case (if types = [] then
                       (case getShortNameFromLabel ctx c1 (getLabelFromId ctx ident) of
                          (Some shortName, c2) \<Rightarrow> (if shortName \<noteq> [] then [shortName] else [], c2)
                        | (None, c2) \<Rightarrow> ([], c2))
                     else (types, c1)) of
                 (types1, c2) \<Rightarrow>
                   let types2 = sort (uniq types1)
                   in Some (types2, c2\<lparr>TypesFromId := (TypesFromId c2)(ident \<mapsto> types2)\<rparr>))))"

fun stringValuesLoop ::
  "string list Traversal \<Rightarrow> string \<Rightarrow> GraphEdge list \<Rightarrow>
   string list \<Rightarrow> bool \<Rightarrow> ParserCache \<Rightarrow> (string list \<times> bool \<times> ParserCache) option" where
  "stringValuesLoop rec ident [] values hasProperty c = Some (values, hasProperty, c)"
| "stringValuesLoop rec ident (edge # rest) values hasProperty c =
     (let hasProperty1 =
            (if NodeId (TargetNode edge) = ident \<and> Label edge = LABEL_DOMAIN then True
             else hasProperty)
      in case concatIf (NodeId (SourceNode edge) = ident \<and> Label edge = LABEL_RANGE)
                rec (NodeId (TargetNode edge)) values c of
           None \<Rightarrow> None
         | Some (values1, c1) \<Rightarrow>
             (case concatIf (NodeId (TargetNode edge) = ident \<and> Label edge = LABEL_SUBCLASS)
                     rec (NodeId (SourceNode edge)) values1 c1 of
                None \<Rightarrow> None
              | Some (values2, c2) \<Rightarrow>
                  (case concatIf (NodeId (TargetNode edge) = ident \<and> Label edge = LABEL_TYPE)
                          rec (NodeId (SourceNode edge)) values2 c2 of
                     None \<Rightarrow> None
                   | Some (values3, c3) \<Rightarrow>
                       stringValuesLoop rec ident rest values3 hasProperty1 c3)))"

primrec getStringValuesFromId ::
  "nat \<Rightarrow> DigitalTwinMetaModelGraph \<Rightarrow> DigitalTwinMetaModelContext \<Rightarrow> string list Traversal" where
  "getStringValuesFromId 0 g ctx = (\<lambda>c ident. None)"
| "getStringValuesFromId (Suc n) g ctx = (\<lambda>c ident.
     case StringValuesFromId c ident of
       Some cached \<Rightarrow> Some (cached, c)
     | None \<Rightarrow>
         (case stringValuesLoop (getStringValuesFromId n g ctx) ident (Edges g) [] False c of
            None \<Rightarrow> None
          | Some (values, hasProperty, c1) \<Rightarrow>
              if values = [] \<and> hasProperty
              then Some ([], c1\<lparr>StringValuesFromId := (StringValuesFromId c1)(ident \<mapsto> [])\<rparr>)
              else
                let shortName = getShortNameFromId ctx ident;
                    values1 = (if values = [] \<and> shortName \<noteq> [] then [shortName] else values)
                in Some (values1,
                         c1\<lparr>StringValuesFromId := (StringValuesFromId c1)(ident \<mapsto> values1)\<rparr>)))"

definition getStringValuesFromShortName ::
  "nat \<Rightarrow> DigitalTwinMetaModelGraph \<Rightarrow> DigitalTwinMetaModelContext \<Rightarrow> string list Traversal" where
  "getStringValuesFromShortName n g ctx c shortName =
     (let ident = getIdFromShortName ctx shortName
      in if ident = Some ''http://azureiot.com/v1/classes/InterfaceInstance/schema''
         then Some ([''XMLSchema#string''], c)
         else (case ident of
                 None \<Rightarrow> Some ([], c)
               | Some i \<Rightarrow> if i = [] then Some ([], c) else getStringValuesFromId n g ctx c i))"

subsection \<open>Queries built on the traversals\<close>

text \<open>The \<open>switch\<close> of \<open>getValueTypesFromId\<close> on one raw value.\<close>

definition valueTypeOf :: "string \<Rightarrow> string list" where
  "valueTypeOf v =
     (if v = ''XMLSchema#boolean'' then [''boolean'']
      else if v = ''XMLSchema#int'' then [''int'']
      else if v = ''XMLSchema#long'' then [''long'']
      else if v = ''XMLSchema#float'' then [''float'']
      else if v = ''XMLSchema#double'' then [''double'']
      else if v = ''XMLSchema#string'' then [''string'']
      else [])"

definition getValueTypesFromId ::
  "nat \<Rightarrow> DigitalTwinMetaModelGraph \<Rightarrow> DigitalTwinMetaModelContext \<Rightarrow> string list Traversal" where
  "getValueTypesFromId n g ctx c ident =
     (if ident = [] then Some ([], c)
      else (case ValueTypesFromId c ident of
              Some cached \<Rightarrow> Some (cached, c)
            | None \<Rightarrow>
                (case getStringValuesFromId n g ctx c ident of
                   None \<Rightarrow> None
                 | Some (values, c1) \<Rightarrow>
                     let valueTypes = concat (map valueTypeOf values)
                     in Some (valueTypes,
                              c1\<lparr>ValueTypesFromId := (ValueTypesFromId c1)(ident \<mapsto> valueTypes)\<rparr>))))"

fun typedPropertiesLoop ::
  "nat \<Rightarrow> DigitalTwinMetaModelGraph \<Rightarrow> DigitalTwinMetaModelContext \<Rightarrow> string list \<Rightarrow>
   string list \<Rightarrow> TypedProperty list \<Rightarrow> ParserCache \<Rightarrow> (TypedProperty list \<times> ParserCache) option" where
  "typedPropertiesLoop n g ctx getRequiredProperties [] results c = Some (results, c)"
| "typedPropertiesLoop n g ctx getRequiredProperties (key # keys) results c =
     (case getIdFromShortName ctx key of
        None \<Rightarrow> typedPropertiesLoop n g ctx getRequiredProperties keys results c
      | Some i \<Rightarrow>
          if i = [] then typedPropertiesLoop n g ctx getRequiredProperties keys results c
          else
            (case (if isArrayFromShortName key then Some (''array'', c)
                   else (case getValueTypesFromId n g ctx c i of
                           None \<Rightarrow> None
                         | Some (valueTypes, c1) \<Rightarrow>
                             Some (case valueTypes of [] \<Rightarrow> [] | t # _ \<Rightarrow> t, c1))) of
               None \<Rightarrow> None
             | Some (ty, c1) \<Rightarrow>
                 typedPropertiesLoop n g ctx getRequiredProperties keys
                   (results @ [\<lparr>label = key, required = (key \<in> set getRequiredProperties),
                                type = ty\<rparr>]) c1))"

definition getTypedPropertiesFromId ::
  "nat \<Rightarrow> DigitalTwinMetaModelGraph \<Rightarrow> DigitalTwinMetaModelContext \<Rightarrow>
   TypedProperty list Traversal" where
  "getTypedPropertiesFromId n g ctx c ident =
     (case TypedPropertiesFromId c ident of
        Some cached \<Rightarrow> Some (cached, c)
      | None \<Rightarrow>
          if isInternationalizationFromId ctx ident then
            (let results = map (\<lambda>code. \<lparr>label = code, required = False, type = ''string''\<rparr>)
                               LANGUAGE_CODES
             in Some (results,
                      c\<lparr>TypedPropertiesFromId := (TypedPropertiesFromId c)(ident \<mapsto> results)\<rparr>))
          else
            (case getPropertiesFromId n g ctx c ident of
               None \<Rightarrow> None
             | Some (keys, c1) \<Rightarrow>
                 let ty = getShortNameFromId ctx ident;
                     getRequiredProperties =
                       (if ty \<noteq> [] then getRequiredPropertiesFromType ty else [])
                 in (case typedPropertiesLoop n g ctx getRequiredProperties keys [] c1 of
                       None \<Rightarrow> None
                     | Some (results, c2) \<Rightarrow>
                         Some (results,
                               c2\<lparr>TypedPropertiesFromId :=
                                     (TypedPropertiesFromId c2)(ident \<mapsto> results)\<rparr>))))"

definition getTypedPropertiesFromType ::
  "nat \<Rightarrow> DigitalTwinMetaModelGraph \<Rightarrow> DigitalTwinMetaModelContext \<Rightarrow>
   TypedProperty list Traversal" where
  "getTypedPropertiesFromType n g ctx c ty =
     (let ident = getIdFromType ctx ty
      in if ident = [] then Some ([], c) else getTypedPropertiesFromId n g ctx c ident)"

definition getPropertiesFromType ::
  "nat \<Rightarrow> DigitalTwinMetaModelGraph \<Rightarrow> DigitalTwinMetaModelContext \<Rightarrow> string list Traversal" where
  "getPropertiesFromType n g ctx c ty =
     (let ident = getIdFromType ctx ty
      in if ident = [] then Some ([], c) else getPropertiesFromId n g ctx c ident)"

section \<open>The queries without their memo tables\<close>

definition propertyNameOf :: "DigitalTwinMetaModelContext \<Rightarrow> string \<Rightarrow> string" where
  "propertyNameOf ctx ident =
     (case propertyNameScan (vocab ctx) ident ctx of Some key \<Rightarrow> key | None \<Rightarrow> ident)"

definition shortNameOfLabel :: "DigitalTwinMetaModelContext \<Rightarrow> string \<Rightarrow> string option" where
  "shortNameOfLabel ctx lbl =
     (case shortNameFromLabelScan lbl ctx of
        Some key \<Rightarrow> Some key
      | None \<Rightarrow> if CHR ''/'' \<notin> set lbl then Some lbl else None)"

fun propertiesLoopP ::
  "(string \<Rightarrow> string list option) \<Rightarrow> DigitalTwinMetaModelContext \<Rightarrow> string \<Rightarrow>
   GraphEdge list \<Rightarrow> string list \<Rightarrow> string list option" where
  "propertiesLoopP rec ctx ident [] properties = Some properties"
| "propertiesLoopP rec ctx ident (edge # rest) properties =
     (if NodeId (TargetNode edge) = ident \<and> Label edge = LABEL_DOMAIN then
        propertiesLoopP rec ctx ident rest
          (properties @ [propertyNameOf ctx (NodeId (SourceNode edge))])
      else if NodeId (SourceNode edge) = ident \<and> Label edge = LABEL_SUBCLASS then
        (case rec (NodeId (TargetNode edge)) of
           None \<Rightarrow> None
         | Some super \<Rightarrow> propertiesLoopP rec ctx ident rest (properties @ super))
      else propertiesLoopP rec ctx ident rest properties)"

primrec propertiesOf ::
  "nat \<Rightarrow> DigitalTwinMetaModelGraph \<Rightarrow> DigitalTwinMetaModelContext \<Rightarrow> string \<Rightarrow>
   string list option" where
  "propertiesOf 0 g ctx = (\<lambda>ident. None)"
| "propertiesOf (Suc n) g ctx = (\<lambda>ident.
     case (if isInternationalizationFromId ctx ident then Some LANGUAGE_CODES
           else propertiesLoopP (propertiesOf n g ctx) ctx ident (Edges g) []) of
       None \<Rightarrow> None
     | Some properties \<Rightarrow> Some (sort (uniq properties)))"

definition concatIfP ::
  "bool \<Rightarrow> (string \<Rightarrow> 'a list option) \<Rightarrow> string \<Rightarrow> 'a list \<Rightarrow> 'a list option" where
  "concatIfP cond rec ident xs =
     (if cond then (case rec ident of None \<Rightarrow> None | Some r \<Rightarrow> Some (xs @ r)) else Some xs)"

fun typesLoopP ::
  "(string \<Rightarrow> string list option) \<Rightarrow> string \<Rightarrow> GraphEdge list \<Rightarrow> string list \<Rightarrow>
   string list option" where
  "typesLoopP rec ident [] types = Some types"
| "typesLoopP rec ident (edge # rest) types =
     (case concatIfP (NodeId (SourceNode edge) = ident \<and> Label edge = LABEL_RANGE)
             rec (NodeId (TargetNode edge)) types of
        None \<Rightarrow> None
      | Some types1 \<Rightarrow>
          (case concatIfP (NodeId (TargetNode edge) = ident \<and> Label edge = LABEL_SUBCLASS)
                  rec (NodeId (SourceNode edge)) types1 of
             None \<Rightarrow> None
           | Some types2 \<Rightarrow> typesLoopP rec ident rest types2))"

primrec typesOf ::
  "nat \<Rightarrow> DigitalTwinMetaModelGraph \<Rightarrow> DigitalTwinMetaModelContext \<Rightarrow> string \<Rightarrow>
   string list option" where
  "typesOf 0 g ctx = (\<lambda>ident. None)"
| "typesOf (Suc n) g ctx = (\<lambda>ident.
     case typesLoopP (typesOf n g ctx) ident (Edges g) [] of
       None \<Rightarrow> None
     | Some types \<Rightarrow>
         Some (sort (uniq (if types = [] then
                             (case shortNameOfLabel ctx (getLabelFromId ctx ident) of
                                Some shortName \<Rightarrow> if shortName \<noteq> [] then [shortName] else []
                              | None \<Rightarrow> [])
                           else types))))"

fun stringValuesLoopP ::
  "(string \<Rightarrow> string list option) \<Rightarrow> string \<Rightarrow> GraphEdge list \<Rightarrow> string list \<Rightarrow> bool \<Rightarrow>
   (string list \<times> bool) option" where
  "stringValuesLoopP rec ident [] values hasProperty = Some (values, hasProperty)"
| "stringValuesLoopP rec ident (edge # rest) values hasProperty =
     (let hasProperty1 =
            (if NodeId (TargetNode edge) = ident \<and> Label edge = LABEL_DOMAIN then True
             else hasProperty)
      in case concatIfP (NodeId (SourceNode edge) = ident \<and> Label edge = LABEL_RANGE)
                rec (NodeId (TargetNode edge)) values of
           None \<Rightarrow> None
         | Some values1 \<Rightarrow>
             (case concatIfP (NodeId (TargetNode edge) = ident \<and> Label edge = LABEL_SUBCLASS)
                     rec (NodeId (SourceNode edge)) values1 of
                None \<Rightarrow> None
              | Some values2 \<Rightarrow>
                  (case concatIfP (NodeId (TargetNode edge) = ident \<and> Label edge = LABEL_TYPE)
                          rec (NodeId (SourceNode edge)) values2 of
                     None \<Rightarrow> None
                   | Some values3 \<Rightarrow> stringValuesLoopP rec ident rest values3 hasProperty1)))"

primrec stringValuesOf ::
  "nat \<Rightarrow> DigitalTwinMetaModelGraph \<Rightarrow> DigitalTwinMetaModelContext \<Rightarrow> string \<Rightarrow>
   string list option" where
  "stringValuesOf 0 g ctx = (\<lambda>ident. None)"
| "stringValuesOf (Suc n) g ctx = (\<lambda>ident.
     case stringValuesLoopP (stringValuesOf n g ctx) ident (Edges g) [] False of
       None \<Rightarrow> None
     | Some (values, hasProperty) \<Rightarrow>
         if values = [] \<and> hasProperty then Some []
         else Some (if values = [] \<and> getShortNameFromId ctx ident \<noteq> []
                    then [getShortNameFromId ctx ident] else values))"

definition valueTypesOf ::
  "nat \<Rightarrow> DigitalTwinMetaModelGraph \<Rightarrow> DigitalTwinMetaModelContext \<Rightarrow> string \<Rightarrow>
   string list option" where
  "valueTypesOf n g ctx ident =
     (if ident = [] then Some []
      else (case stringValuesOf n g ctx ident of
              None \<Rightarrow> None
            | Some values \<Rightarrow> Some (concat (map valueTypeOf values))))"

fun typedPropertiesLoopP ::
  "nat \<Rightarrow> DigitalTwinMetaModelGraph \<Rightarrow> DigitalTwinMetaModelContext \<Rightarrow> string list \<Rightarrow>
   string list \<Rightarrow> TypedProperty list \<Rightarrow> TypedProperty list option" where
  "typedPropertiesLoopP n g ctx getRequiredProperties [] results = Some results"
| "typedPropertiesLoopP n g ctx getRequiredProperties (key # keys) results =
     (case getIdFromShortName ctx key of
        None \<Rightarrow> typedPropertiesLoopP n g ctx getRequiredProperties keys results
      | Some i \<Rightarrow>
          if i = [] then typedPropertiesLoopP n g ctx getRequiredProperties keys results
          else
            (case (if isArrayFromShortName key then Some ''array''
                   else (case valueTypesOf n g ctx i of
                           None \<Rightarrow> None
                         | Some valueTypes \<Rightarrow> Some (case valueTypes of [] \<Rightarrow> [] | t # _ \<Rightarrow> t))) of
               None \<Rightarrow> None
             | Some ty \<Rightarrow>
                 typedPropertiesLoopP n g ctx getRequiredProperties keys
                   (results @ [\<lparr>label = key, required = (key \<in> set getRequiredProperties),
                                type = ty\<rparr>])))"

definition typedPropertiesOf ::
  "nat \<Rightarrow> DigitalTwinMetaModelGraph \<Rightarrow> DigitalTwinMetaModelContext \<Rightarrow> string \<Rightarrow>
   TypedProperty list option" where
  "typedPropertiesOf n g ctx ident =
     (if isInternationalizationFromId ctx ident then
        Some (map (\<lambda>code. \<lparr>label = code, required = False, type = ''string''\<rparr>) LANGUAGE_CODES)
      else
        (case propertiesOf n g ctx ident of
           None \<Rightarrow> None
         | Some keys \<Rightarrow>
             typedPropertiesLoopP n g ctx
               (if getShortNameFromId ctx ident \<noteq> []
                then getRequiredPropertiesFromType (getShortNameFromId ctx ident) else [])
               keys []))"

text \<open>
  A memo table agrees with a query when every entry it holds is a value of the query.
\<close>

definition memo_ok :: "('k \<Rightarrow> 'v \<Rightarrow> bool) \<Rightarrow> ('k \<rightharpoonup> 'v) \<Rightarrow> bool" where
  "memo_ok P m = (\<forall>k v. m k = Some v \<longrightarrow> P k v)"

definition cache_ok ::
  "DigitalTwinMetaModelGraph \<Rightarrow> DigitalTwinMetaModelContext \<Rightarrow> ParserCache \<Rightarrow> bool" where
  "cache_ok g ctx c =
     (memo_ok (\<lambda>i k. k = propertyNameOf ctx i) (PropertyNameFromId c) \<and>
      memo_ok (\<lambda>l s. s = shortNameOfLabel ctx l) (ShortNameFromLabel c) \<and>
      memo_ok (\<lambda>i r. \<exists>m. propertiesOf m g ctx i = Some r) (PropertiesFromId c) \<and>
      memo_ok (\<lambda>i r. \<exists>m. typesOf m g ctx i = Some r) (TypesFromId c) \<and>
      memo_ok (\<lambda>i r. \<exists>m. stringValuesOf m g ctx i = Some r) (StringValuesFromId c) \<and>
      memo_ok (\<lambda>i r. \<exists>m. valueTypesOf m g ctx i = Some r) (ValueTypesFromId c) \<and>
      memo_ok (\<lambda>i r. \<exists>m. typedPropertiesOf m g ctx i = Some r) (TypedPropertiesFromId c))"

definition sim ::
  "DigitalTwinMetaModelGraph \<Rightarrow> DigitalTwinMetaModelContext \<Rightarrow>
   (nat \<Rightarrow> string \<Rightarrow> 'a option) \<Rightarrow> 'a Traversal \<Rightarrow> bool" where
  "sim g ctx recP rec =
     (\<forall>c i r c'. cache_ok g ctx c \<longrightarrow> rec c i = Some (r, c') \<longrightarrow>
        (\<exists>m. recP m i = Some r) \<and> cache_ok g ctx c')"

definition returns :: "'a Traversal \<Rightarrow> string \<Rightarrow> bool" where
  "returns f i = (\<forall>c. f c i \<noteq> None)"

definition propertiesCalls :: "DigitalTwinMetaModelGraph \<Rightarrow> (string \<times> string) list" where
  "propertiesCalls g =
     [(NodeId (TargetNode e), NodeId (SourceNode e)). e \<leftarrow> Edges g, Label e = LABEL_SUBCLASS]"

definition typesCalls :: "DigitalTwinMetaModelGraph \<Rightarrow> (string \<times> string) list" where
  "typesCalls g =
     [(NodeId (TargetNode e), NodeId (SourceNode e)). e \<leftarrow> Edges g, Label e = LABEL_RANGE] @
     [(NodeId (SourceNode e), NodeId (TargetNode e)). e \<leftarrow> Edges g, Label e = LABEL_SUBCLASS]"

definition stringValuesCalls :: "DigitalTwinMetaModelGraph \<Rightarrow> (string \<times> string) list" where
  "stringValuesCalls g =
     [(NodeId (TargetNode e), NodeId (SourceNode e)). e \<leftarrow> Edges g, Label e = LABEL_RANGE] @
     [(NodeId (SourceNode e), NodeId (TargetNode e)). e \<leftarrow> Edges g,
        Label e = LABEL_SUBCLASS \<or> Label e = LABEL_TYPE]"

definition fuel_mono :: "(nat \<Rightarrow> 'a Traversal) \<Rightarrow> bool" where
  "fuel_mono f = (\<forall>n m c i y. f n c i = Some y \<longrightarrow> n \<le> m \<longrightarrow> f m c i = Some y)"

text \<open>The subclass edges of the graph, and the properties that name a class as their domain.\<close>

definition subClassOf :: "DigitalTwinMetaModelGraph \<Rightarrow> string \<Rightarrow> string \<Rightarrow> bool" where
  "subClassOf g a b =
     (\<exists>e \<in> set (Edges g). NodeId (SourceNode e) = a \<and> NodeId (TargetNode e) = b \<and>
                           Label e = LABEL_SUBCLASS)"

definition domainProperties ::
  "DigitalTwinMetaModelGraph \<Rightarrow> DigitalTwinMetaModelContext \<Rightarrow> string \<Rightarrow> string list" where
  "domainProperties g ctx cls =
     [propertyNameOf ctx (NodeId (SourceNode e)).
        e \<leftarrow> Edges g, NodeId (TargetNode e) = cls \<and> Label e = LABEL_DOMAIN]"

section \<open>A small graph and context\<close>

text \<open>The inputs at which the theorems below are evaluated.\<close>

definition mkEdge :: "string \<Rightarrow> string \<Rightarrow> string \<Rightarrow> GraphEdge" where
  "mkEdge s l t = \<lparr>SourceNode = \<lparr>NodeId = s, NodeValue = None\<rparr>,
                   TargetNode = \<lparr>NodeId = t, NodeValue = None\<rparr>, Label = l\<rparr>"

definition exampleContext :: DigitalTwinMetaModelContext where
  "exampleContext =
     [(''@vocab'', CtxString ''dt:''),
      (''name'', CtxString ''name''),
      (''comment'', CtxString ''comment''),
      (''schema'', CtxString ''schema''),
      (''unit'', CtxString ''unit''),
      (''count'', CtxString ''count''),
      (''ratio'', CtxString ''ratio''),
      (''displayName'', CtxObject ''displayName'' (Some ''@language'')),
      (''Telemetry'', CtxString ''Telemetry''),
      (''Boolean'', CtxString ''Boolean'')]"

definition exampleGraph :: DigitalTwinMetaModelGraph where
  "exampleGraph = \<lparr>Nodes = [], Edges =
     [mkEdge ''dt:name'' LABEL_DOMAIN ''dt:Telemetry'',
      mkEdge ''dt:Telemetry'' LABEL_SUBCLASS ''dt:Entity'',
      mkEdge ''dt:comment'' LABEL_DOMAIN ''dt:Entity'',
      mkEdge ''dt:schema'' LABEL_RANGE ''dt:Schema'',
      mkEdge ''dt:Boolean'' LABEL_SUBCLASS ''dt:Schema'',
      mkEdge ''dt:unit'' LABEL_RANGE ''dt:Unit'',
      mkEdge ''dt:fahrenheit'' LABEL_TYPE ''dt:Unit'',
      mkEdge ''dt:celsius'' LABEL_TYPE ''dt:Unit'',
      mkEdge ''dt:fahrenheit'' LABEL_SUBCLASS ''dt:Unit'',
      mkEdge ''dt:Sensor'' LABEL_SUBCLASS ''dt:Telemetry'',
      mkEdge ''dt:displayName'' LABEL_SUBCLASS ''dt:Telemetry'',
      mkEdge ''dt:count'' LABEL_RANGE ''http://www.w3.org/2001/XMLSchema#int'',
      mkEdge ''dt:ratio'' LABEL_RANGE ''http://www.w3.org/2001/XMLSchema#float'']\<rparr>"

section \<open>The identity of the returned arrays\<close>

text \<open>
  The identity of the arrays. In the model above a query returns the contents of an
  array. Two calls may return arrays with the same contents that are not the same
  object, so \<open>getStringValuesFromId\<close> is modelled a second time over an explicit store:
  an array is a reference into a list of allocated arrays, the array literal \<open>[]\<close> and
  \<open>concat\<close> allocate, \<open>push\<close> updates in place, and the memo table
  \<open>cache.StringValuesFromId\<close> holds references.
\<close>

type_synonym Ref = nat

record ParserStore =
  Arrays :: "string list list"
  StringValuesFromIdRefs :: "string \<rightharpoonup> Ref"

definition emptyStore :: ParserStore where
  "emptyStore = \<lparr>Arrays = [], StringValuesFromIdRefs = Map.empty\<rparr>"

definition newArray :: "string list \<Rightarrow> ParserStore \<Rightarrow> Ref \<times> ParserStore" where
  "newArray xs s = (length (Arrays s), s\<lparr>Arrays := Arrays s @ [xs]\<rparr>)"

definition arrayAt :: "ParserStore \<Rightarrow> Ref \<Rightarrow> string list" where
  "arrayAt s r = (if r < length (Arrays s) then Arrays s ! r else [])"

definition push :: "Ref \<Rightarrow> string \<Rightarrow> ParserStore \<Rightarrow> ParserStore" where
  "push r x s = s\<lparr>Arrays := (Arrays s)[r := arrayAt s r @ [x]]\<rparr>"

type_synonym RefTraversal = "ParserStore \<Rightarrow> string \<Rightarrow> (Ref \<times> ParserStore) option"

definition concatIfRef ::
  "bool \<Rightarrow> RefTraversal \<Rightarrow> string \<Rightarrow> Ref \<Rightarrow> ParserStore \<Rightarrow> (Ref \<times> ParserStore) option" where
  "concatIfRef cond rec ident xs s =
     (if cond then
        (case rec s ident of
           None \<Rightarrow> None
         | Some (r, s') \<Rightarrow> Some (newArray (arrayAt s' xs @ arrayAt s' r) s'))
      else Some (xs, s))"

fun stringValuesLoopRef ::
  "RefTraversal \<Rightarrow> string \<Rightarrow> GraphEdge list \<Rightarrow> Ref \<Rightarrow> bool \<Rightarrow> ParserStore \<Rightarrow>
   (Ref \<times> bool \<times> ParserStore) option" where
  "stringValuesLoopRef rec ident [] values hasProperty s = Some (values, hasProperty, s)"
| "stringValuesLoopRef rec ident (edge # rest) values hasProperty s =
     (let hasProperty1 =
            (if NodeId (TargetNode edge) = ident \<and> Label edge = LABEL_DOMAIN then True
             else hasProperty)
      in case concatIfRef (NodeId (SourceNode edge) = ident \<and> Label edge = LABEL_RANGE)
                rec (NodeId (TargetNode edge)) values s of
           None \<Rightarrow> None
         | Some (values1, s1) \<Rightarrow>
             (case concatIfRef (NodeId (TargetNode edge) = ident \<and> Label edge = LABEL_SUBCLASS)
                     rec (NodeId (SourceNode edge)) values1 s1 of
                None \<Rightarrow> None
              | Some (values2, s2) \<Rightarrow>
                  (case concatIfRef (NodeId (TargetNode edge) = ident \<and> Label edge = LABEL_TYPE)
                          rec (NodeId (SourceNode edge)) values2 s2 of
                     None \<Rightarrow> None
                   | Some (values3, s3) \<Rightarrow>
                       stringValuesLoopRef rec ident rest values3 hasProperty1 s3)))"

definition cacheStringValues :: "string \<Rightarrow> Ref \<Rightarrow> ParserStore \<Rightarrow> ParserStore" where
  "cacheStringValues ident r s =
     s\<lparr>StringValuesFromIdRefs := (StringValuesFromIdRefs s)(ident \<mapsto> r)\<rparr>"

primrec getStringValuesFromIdRef ::
  "nat \<Rightarrow> DigitalTwinMetaModelGraph \<Rightarrow> DigitalTwinMetaModelContext \<Rightarrow> RefTraversal" where
  "getStringValuesFromIdRef 0 g ctx = (\<lambda>s ident. None)"
| "getStringValuesFromIdRef (Suc n) g ctx = (\<lambda>s ident.
     case StringValuesFromIdRefs s ident of
       Some cached \<Rightarrow> Some (cached, s)
     | None \<Rightarrow>
         (case newArray [] s of (values0, s0) \<Rightarrow>
          case stringValuesLoopRef (getStringValuesFromIdRef n g ctx) ident (Edges g)
                 values0 False s0 of
            None \<Rightarrow> None
          | Some (values, hasProperty, s1) \<Rightarrow>
              if arrayAt s1 values = [] then
                if hasProperty then
                  (case newArray [] s1 of (cached, s2) \<Rightarrow>
                   case newArray [] (cacheStringValues ident cached s2) of (result, s3) \<Rightarrow>
                     Some (result, s3))
                else
                  let shortName = getShortNameFromId ctx ident;
                      s2 = (if shortName \<noteq> [] then push values shortName s1 else s1)
                  in Some (values, cacheStringValues ident values s2)
              else Some (values, cacheStringValues ident values s1)))"

text \<open>
  A graph in which \<open>dt:Telemetry\<close> is the domain of one property and has neither a range
  nor subclasses nor instances, and the store after the first call of
  \<open>getStringValuesFromId\<close> for that id.
\<close>

definition objectGraph :: DigitalTwinMetaModelGraph where
  "objectGraph = \<lparr>Nodes = [], Edges = [mkEdge ''dt:name'' LABEL_DOMAIN ''dt:Telemetry'']\<rparr>"

definition objectStore :: ParserStore where
  "objectStore = \<lparr>Arrays = [[], [], []], StringValuesFromIdRefs = [''dt:Telemetry'' \<mapsto> 1]\<rparr>"

section \<open>The diagnostics engine\<close>

subsection \<open>Parsed documents\<close>

text \<open>
  Modelled from the spec: the module \<open>JSON\<close> (the parser \<open>Json.parse\<close> and the classes
  of the value tree) is not part of the sources at hand. The spec describes its result
  as a JSON value tree with source-offset spans attached to every node and
  property-name token; the model has exactly what the diagnostics read of it. Every
  node carries its \<open>span\<close> and the string that its \<open>toFriendlyString()\<close> returns (for a
  string node, the text of the string); an object node carries its properties in
  document order, each with the string node of its name; \<open>propertyNames\<close>,
  \<open>hasProperty\<close> and \<open>getPropertyValue\<close> read that list (the names of an object's
  properties are taken to be distinct).
\<close>

record Span =
  startIndex :: nat
  endIndex :: nat

datatype JsonValue =
    ObjectValue Span string "((Span \<times> string) \<times> JsonValue) list"
  | ArrayValue Span string "JsonValue list"
  | StringValue Span string
  | NumberValue Span string
  | BooleanValue Span string
  | NullValue Span string

type_synonym JsonProperty = "(Span \<times> string) \<times> JsonValue"

fun span :: "JsonValue \<Rightarrow> Span" where
  "span (ObjectValue sp _ _) = sp"
| "span (ArrayValue sp _ _) = sp"
| "span (StringValue sp _) = sp"
| "span (NumberValue sp _) = sp"
| "span (BooleanValue sp _) = sp"
| "span (NullValue sp _) = sp"

fun toFriendlyString :: "JsonValue \<Rightarrow> string" where
  "toFriendlyString (ObjectValue _ s _) = s"
| "toFriendlyString (ArrayValue _ s _) = s"
| "toFriendlyString (StringValue _ s) = s"
| "toFriendlyString (NumberValue _ s) = s"
| "toFriendlyString (BooleanValue _ s) = s"
| "toFriendlyString (NullValue _ s) = s"

fun properties :: "JsonValue \<Rightarrow> JsonProperty list" where
  "properties (ObjectValue _ _ ps) = ps"
| "properties _ = []"

definition propertyNames :: "JsonValue \<Rightarrow> string list" where
  "propertyNames v = map (\<lambda>p. snd (fst p)) (properties v)"

definition getPropertyValue :: "JsonValue \<Rightarrow> string \<Rightarrow> JsonValue option" where
  "getPropertyValue v name = map_of (map (\<lambda>p. (snd (fst p), snd p)) (properties v)) name"

definition hasProperty :: "JsonValue \<Rightarrow> string \<Rightarrow> bool" where
  "hasProperty v name = (getPropertyValue v name \<noteq> None)"

text \<open>
  The result of \<open>Json.parse\<close>: \<open>None\<close> where it returns no object, otherwise an object
  whose field \<open>value\<close> may be missing.
\<close>

datatype ParseResult = ParseResult (parsedValue: "JsonValue option")

record TextDocument =
  fileName :: string
  fsPath :: string
  getText :: string

text \<open>
  The constants that the engine imports from modules outside the sources at hand
  (\<open>ModelType\<close>, \<open>ContextUris\<close>, \<open>DTDLKeywords\<close>); they are parameters of the model.
\<close>

record DigitalTwinConstants =
  ModelType_Interface :: string
  ModelType_CapabilityModel :: string
  ContextUris_interface :: string
  ContextUris_capabilityModel :: string
  ContextUris_iotModel :: string
  inlineInterfaceKeyName :: string

record Issue = Span +
  message :: string

definition mkIssue :: "Span \<Rightarrow> string \<Rightarrow> Issue" where
  "mkIssue sp msg = \<lparr>startIndex = startIndex sp, endIndex = endIndex sp, message = msg\<rparr>"

subsection \<open>Strings, patterns and numbers\<close>

definition newline :: string where
  "newline = [CHR 0x0A]"

fun join :: "string \<Rightarrow> string list \<Rightarrow> string" where
  "join sep [] = []"
| "join sep [x] = x"
| "join sep (x # y # ys) = x @ sep @ join sep (y # ys)"

text \<open>\<open>String.prototype.toLowerCase\<close>, on the letters of ASCII.\<close>

definition toLowerCaseChar :: "char \<Rightarrow> char" where
  "toLowerCaseChar ch =
     (if CHR ''A'' \<le> ch \<and> ch \<le> CHR ''Z'' then char_of (of_char ch + (32 :: nat)) else ch)"

definition toLowerCase :: "string \<Rightarrow> string" where
  "toLowerCase s = map toLowerCaseChar s"

text \<open>\<open>/\.interface\.json$/.test(s)\<close>\<close>

definition isInterfaceFile :: "string \<Rightarrow> bool" where
  "isInterfaceFile s =
     (length ''.interface.json'' \<le> length s \<and>
      drop (length s - length ''.interface.json'') s = ''.interface.json'')"

definition isDigit :: "char \<Rightarrow> bool" where
  "isDigit ch = (CHR ''0'' \<le> ch \<and> ch \<le> CHR ''9'')"

text \<open>The character class \<open>[a-zA-Z0-9_]\<close>.\<close>

definition isWordChar :: "char \<Rightarrow> bool" where
  "isWordChar ch =
     ((CHR ''a'' \<le> ch \<and> ch \<le> CHR ''z'') \<or> (CHR ''A'' \<le> ch \<and> ch \<le> CHR ''Z'') \<or>
      isDigit ch \<or> ch = CHR ''_'')"

fun splitOn :: "char \<Rightarrow> string \<Rightarrow> string list" where
  "splitOn sep [] = [[]]"
| "splitOn sep (ch # s) =
     (if ch = sep then [] # splitOn sep s
      else (case splitOn sep s of [] \<Rightarrow> [[ch]] | part # parts \<Rightarrow> (ch # part) # parts))"

text \<open>\<open>/^[a-zA-Z0-9_]+$/\<close>\<close>

definition matchesName :: "string \<Rightarrow> bool" where
  "matchesName s = (s \<noteq> [] \<and> list_all isWordChar s)"

text \<open>
  \<open>/^urn:([a-zA-Z0-9_]+:)+[a-zA-Z0-9_]+:\d+$/\<close>: split at the colons, the string is
  \<open>urn\<close>, then two or more words, then a number.
\<close>

definition matchesUrn :: "string \<Rightarrow> bool" where
  "matchesUrn s =
     (let parts = splitOn (CHR '':'') s
      in 4 \<le> length parts \<and> hd parts = ''urn'' \<and>
         list_all matchesName (butlast (tl parts)) \<and>
         last parts \<noteq> [] \<and> list_all isDigit (last parts))"

datatype StringValuePattern = UrnPattern | NamePattern

definition getStringValuePattern :: "string \<Rightarrow> StringValuePattern option" where
  "getStringValuePattern key =
     (if key = ''@id'' then Some UrnPattern
      else if key = ''name'' then Some NamePattern
      else if key = ''schema'' then Some UrnPattern
      else None)"

fun patternTest :: "StringValuePattern \<Rightarrow> string \<Rightarrow> bool" where
  "patternTest UrnPattern s = matchesUrn s"
| "patternTest NamePattern s = matchesName s"

fun patternToString :: "StringValuePattern \<Rightarrow> string" where
  "patternToString UrnPattern =
     ''/^urn:([a-zA-Z0-9_]+:)+[a-zA-Z0-9_]+:'' @ [CHR 0x5C] @ ''d+$/''"
| "patternToString NamePattern = ''/^[a-zA-Z0-9_]+$/''"

definition getStringValueLengthRange :: "string \<Rightarrow> (nat \<times> nat) option" where
  "getStringValueLengthRange key =
     (if key = ''@id'' then Some (0, 256)
      else if key = ''schema'' then Some (0, 256)
      else None)"

fun natToString :: "nat \<Rightarrow> string" where
  "natToString n =
     (if n < 10 then [char_of (48 + n)]
      else natToString (n div 10) @ [char_of (48 + n mod 10)])"

text \<open>
  \<open>Number(s)\<close> on a decimal literal \<open>-?digits(.digits)?([eE][+-]?digits)?\<close>, the form of a
  JSON number: the value is \<open>m * 10^e\<close> for integers \<open>m\<close> and \<open>e\<close>; any other string gives
  \<open>NaN\<close>. The model keeps the exact decimal value and does not round it to a double, so
  it agrees with JavaScript on the literals that a double represents exactly, such as
  \<open>3.5\<close>. On a literal that JavaScript rounds to an integer (\<open>4503599627370496.5\<close>,
  \<open>1e-400\<close>) the code sees an integer and the model does not.
\<close>

datatype JsNumber = NaN | Decimal int int

definition parseDigits :: "string \<Rightarrow> nat option" where
  "parseDigits s =
     (if s \<noteq> [] \<and> list_all isDigit s
      then Some (foldl (\<lambda>acc ch. 10 * acc + (of_char ch - 48)) 0 s) else None)"

definition parseExponent :: "string \<Rightarrow> int option" where
  "parseExponent s =
     (case s of
        [] \<Rightarrow> Some 0
      | ch # r \<Rightarrow>
          if ch = CHR ''e'' \<or> ch = CHR ''E'' then
            (case r of
               [] \<Rightarrow> None
             | sg # r' \<Rightarrow>
                 if sg = CHR ''-'' then map_option (\<lambda>k. - int k) (parseDigits r')
                 else if sg = CHR ''+'' then map_option int (parseDigits r')
                 else map_option int (parseDigits r))
          else None)"

definition Number :: "string \<Rightarrow> JsNumber" where
  "Number s =
     (let neg = (s \<noteq> [] \<and> hd s = CHR ''-'');
          body = (if neg then tl s else s);
          mantissa = takeWhile (\<lambda>ch. ch \<noteq> CHR ''e'' \<and> ch \<noteq> CHR ''E'') body;
          exponent = dropWhile (\<lambda>ch. ch \<noteq> CHR ''e'' \<and> ch \<noteq> CHR ''E'') body;
          intPart = takeWhile (\<lambda>ch. ch \<noteq> CHR ''.'') mantissa;
          rest = dropWhile (\<lambda>ch. ch \<noteq> CHR ''.'') mantissa;
          fracPart = (if rest = [] then [] else tl rest)
      in case (parseDigits intPart,
               if rest = [] then Some 0 else parseDigits fracPart,
               parseExponent exponent) of
           (Some i, Some f, Some e) \<Rightarrow>
             Decimal ((if neg then - 1 else 1) * (int i * 10 ^ length fracPart + int f))
                     (e - int (length fracPart))
         | _ \<Rightarrow> NaN)"

text \<open>\<open>Math.floor(value) !== value\<close>\<close>

fun notInteger :: "JsNumber \<Rightarrow> bool" where
  "notInteger NaN = True"
| "notInteger (Decimal m e) = (if 0 \<le> e then False else m mod 10 ^ nat (- e) \<noteq> 0)"

subsection \<open>Results of the passes\<close>

text \<open>
  A pass runs the queries of the parser, so it has their fuel and threads the memo
  tables. It returns \<open>None\<close> when a query did not return within the fuel, \<open>Inl\<close> when
  JavaScript would throw (a property read on \<open>undefined\<close>), and otherwise the value
  with the updated tables.
\<close>

datatype JsError = TypeError

type_synonym 'a Result = "(JsError + 'a \<times> ParserCache) option"

definition returnD :: "'a \<Rightarrow> ParserCache \<Rightarrow> 'a Result" where
  "returnD x c = Some (Inr (x, c))"

definition throwD :: "'a Result" where
  "throwD = Some (Inl TypeError)"

definition bindD :: "'a Result \<Rightarrow> ('a \<Rightarrow> ParserCache \<Rightarrow> 'b Result) \<Rightarrow> 'b Result" where
  "bindD r f =
     (case r of
        None \<Rightarrow> None
      | Some (Inl e) \<Rightarrow> Some (Inl e)
      | Some (Inr (x, c)) \<Rightarrow> f x c)"

definition liftT :: "('a \<times> ParserCache) option \<Rightarrow> 'a Result" where
  "liftT r = map_option Inr r"

subsection \<open>The checks\<close>

definition isValidStringValue :: "string \<Rightarrow> string list \<Rightarrow> bool \<Rightarrow> bool" where
  "isValidStringValue v testValues caseInsensitive =
     (let v1 = (if caseInsensitive then toLowerCase v else v)
      in list_ex (\<lambda>testValue.
                    (if caseInsensitive then toLowerCase testValue else testValue) = v1)
                 testValues)"

text \<open>What \<open>getType\<close> returns: a string, an array of strings, or \<open>null\<close>.\<close>

datatype TypeResult = TypeString string | TypeArray "string list" | TypeNull

text \<open>
  The valid types of the position of a value, as \<open>getType\<close> and \<open>getInvalidTypeIssues\<close>
  both compute them: \<open>None\<close> where the key has no id.
\<close>

definition positionTypes ::
  "nat \<Rightarrow> DigitalTwinConstants \<Rightarrow> DigitalTwinMetaModelGraph \<Rightarrow> DigitalTwinMetaModelContext \<Rightarrow>
   TextDocument \<Rightarrow> string option \<Rightarrow> ParserCache \<Rightarrow> string list option Result" where
  "positionTypes n K g ctx document jsonKey c =
     (if jsonKey \<noteq> None \<and> jsonKey \<noteq> Some [] then
        (case getIdFromShortName ctx (the jsonKey) of
           None \<Rightarrow> returnD None c
         | Some ident \<Rightarrow>
             if ident = [] then returnD None c
             else bindD (liftT (getTypesFromId n g ctx c ident))
                        (\<lambda>types c1. returnD (Some types) c1))
      else
        returnD (Some [if isInterfaceFile (fsPath document) then ModelType_Interface K
                       else ModelType_CapabilityModel K]) c)"

definition getType ::
  "nat \<Rightarrow> DigitalTwinConstants \<Rightarrow> DigitalTwinMetaModelGraph \<Rightarrow> DigitalTwinMetaModelContext \<Rightarrow>
   TextDocument \<Rightarrow> JsonValue \<Rightarrow> string option \<Rightarrow> ParserCache \<Rightarrow> TypeResult Result" where
  "getType n K g ctx document jsonValue jsonKey c =
     (case (case getPropertyValue jsonValue ''@type'' of
              Some (StringValue _ s) \<Rightarrow> Some (TypeString s)
            | Some (ArrayValue _ _ elems) \<Rightarrow> Some (TypeArray (map toFriendlyString elems))
            | _ \<Rightarrow> None) of
        Some ty \<Rightarrow> returnD ty c
      | None \<Rightarrow>
          bindD (positionTypes n K g ctx document jsonKey c)
            (\<lambda>types c1.
               case types of
                 None \<Rightarrow> returnD TypeNull c1
               | Some ts \<Rightarrow>
                   (case ts of [t] \<Rightarrow> returnD (TypeString t) c1 | _ \<Rightarrow> returnD TypeNull c1)))"

definition getStringPatternIssues :: "TextDocument \<Rightarrow> JsonValue \<Rightarrow> string \<Rightarrow> Issue list" where
  "getStringPatternIssues document jsonValue jsonKey =
     (case getStringValuePattern jsonKey of
        None \<Rightarrow> []
      | Some pattern \<Rightarrow>
          if \<not> patternTest pattern (toFriendlyString jsonValue) then
            [mkIssue (span jsonValue)
               (''Invalid value. Valid value must match this: '' @
                (if jsonKey = ''@id'' \<or> jsonKey = ''schema'' then
                   ''The id should be a simple URN which is a multipart string sparated by colons. It must start with the string '' @
                   [CHR 0x22] @ ''urn'' @ [CHR 0x22] @
                   ''. Each segment may only contain the characters a-z, A-Z, 0-9, and underscore.''
                 else if jsonKey = ''name'' then
                   ''The name should only contain the characters a-z, A-Z, 0-9, and underscore.''
                 else patternToString pattern))]
          else []) @
     (case getStringValueLengthRange jsonKey of
        None \<Rightarrow> []
      | Some (lo, hi) \<Rightarrow>
          if length (toFriendlyString jsonValue) < lo \<or> length (toFriendlyString jsonValue) > hi
          then [mkIssue (span jsonValue)
                  (''Invalid value. Valid value must has length between '' @
                   join '' and '' [natToString lo, natToString hi] @ ''.'')]
          else [])"

definition getStringIssues ::
  "nat \<Rightarrow> DigitalTwinConstants \<Rightarrow> DigitalTwinMetaModelGraph \<Rightarrow> DigitalTwinMetaModelContext \<Rightarrow>
   TextDocument \<Rightarrow> JsonValue \<Rightarrow> bool \<Rightarrow> string option \<Rightarrow> ParserCache \<Rightarrow> Issue list Result" where
  "getStringIssues n K g ctx document jsonValue isInlineInterface jsonKey c =
     (case jsonKey of
        None \<Rightarrow> returnD [] c
      | Some key \<Rightarrow>
          if key = [] then returnD [] c
          else
            bindD (if key = ''@context'' then
                     returnD
                       ([if isInlineInterface then ContextUris_interface K
                         else if isInterfaceFile (fileName document) then ContextUris_interface K
                         else ContextUris_capabilityModel K,
                         ContextUris_iotModel K], True) c
                   else if key = ''@id'' then returnD ([''XMLSchema#string''], True) c
                   else bindD (liftT (getStringValuesFromShortName n g ctx c key))
                          (\<lambda>values c1. returnD (values, False) c1))
              (\<lambda>(values, caseInsensitive) c1.
                 if values = [] then returnD [] c1
                 else if ''XMLSchema#string'' \<in> set values
                 then returnD (getStringPatternIssues document jsonValue key) c1
                 else if \<not> isValidStringValue (toFriendlyString jsonValue) values caseInsensitive
                 then returnD [mkIssue (span jsonValue)
                                 (''Invalid value. Valid values:'' @ newline @ join newline values)]
                        c1
                 else returnD [] c1))"

fun arrayElementNameLoop :: "JsonValue list \<Rightarrow> string list \<Rightarrow> Issue list \<Rightarrow> Issue list" where
  "arrayElementNameLoop [] names issues = issues"
| "arrayElementNameLoop (elementValue # rest) names issues =
     (case elementValue of
        ObjectValue _ _ _ \<Rightarrow>
          (case getPropertyValue elementValue ''name'' of
             Some (StringValue sp name) \<Rightarrow>
               if name \<in> set names
               then arrayElementNameLoop rest names
                      (issues @ [mkIssue sp (name @ '' has already been assigned to another item.'')])
               else arrayElementNameLoop rest (names @ [name]) issues
           | _ \<Rightarrow> arrayElementNameLoop rest names issues)
      | _ \<Rightarrow> arrayElementNameLoop rest names issues)"

definition getArrayElementNameIssues :: "JsonValue \<Rightarrow> bool \<Rightarrow> Issue list" where
  "getArrayElementNameIssues jsonValue isInlineInterface =
     (case jsonValue of
        ArrayValue _ _ elems \<Rightarrow> arrayElementNameLoop elems [] []
      | _ \<Rightarrow> [])"

definition getMissingRequiredPropertiesIssues :: "JsonValue \<Rightarrow> string \<Rightarrow> bool \<Rightarrow> Issue list" where
  "getMissingRequiredPropertiesIssues jsonValue ty isInlineInterface =
     (let requiredProperties = getRequiredPropertiesFromType ty;
          missingRequiredProperties =
            filter (\<lambda>requiredProperty.
                      \<not> hasProperty jsonValue requiredProperty \<and>
                      \<not> (isInlineInterface \<and> requiredProperty = ''@context''))
                   requiredProperties
      in (if missingRequiredProperties \<noteq> [] then
            [\<lparr>startIndex = startIndex (span jsonValue), endIndex = startIndex (span jsonValue),
              message = ''Missing required properties:'' @ newline @
                        join newline missingRequiredProperties\<rparr>]
          else []) @
         concat (map (\<lambda>propertyName.
                        if propertyName \<notin> set requiredProperties then []
                        else (case getPropertyValue jsonValue propertyName of
                                Some (ArrayValue sp _ []) \<Rightarrow>
                                  [\<lparr>startIndex = startIndex sp, endIndex = startIndex sp,
                                    message = propertyName @ '' cannot be empty.''\<rparr>]
                              | _ \<Rightarrow> []))
                     (propertyNames jsonValue)))"

fun typedPropertyLabels ::
  "nat \<Rightarrow> DigitalTwinMetaModelGraph \<Rightarrow> DigitalTwinMetaModelContext \<Rightarrow> string list \<Rightarrow>
   string list \<Rightarrow> ParserCache \<Rightarrow> string list Result" where
  "typedPropertyLabels n g ctx [] props c = returnD props c"
| "typedPropertyLabels n g ctx (currentType # rest) props c =
     bindD (liftT (getTypedPropertiesFromType n g ctx c currentType))
       (\<lambda>typed c1.
          typedPropertyLabels n g ctx rest
            (props @ map label typed @ getRequiredPropertiesFromType currentType) c1)"

definition getUnexpectedPropertiesIssues ::
  "nat \<Rightarrow> DigitalTwinMetaModelGraph \<Rightarrow> DigitalTwinMetaModelContext \<Rightarrow> JsonValue \<Rightarrow>
   TypeResult \<Rightarrow> ParserCache \<Rightarrow> Issue list Result" where
  "getUnexpectedPropertiesIssues n g ctx jsonValue ty c =
     bindD (case ty of
              TypeArray types \<Rightarrow> typedPropertyLabels n g ctx types [] c
            | TypeString t \<Rightarrow> typedPropertyLabels n g ctx [t] [] c
            | TypeNull \<Rightarrow> throwD)
       (\<lambda>props c1.
          returnD
            (concat (map (\<lambda>p. if snd (fst p) \<noteq> ''@type'' \<and> snd (fst p) \<noteq> ''@id'' \<and>
                                  snd (fst p) \<notin> set (uniq props)
                               then [mkIssue (fst (fst p)) (snd (fst p) @ '' is unexpected.'')]
                               else [])
                         (properties jsonValue))) c1)"

text \<open>The first loop of \<open>getInvalidTypeIssues\<close>, for the key \<open>contents\<close>.\<close>

fun contentsTypeLoop ::
  "Span \<Rightarrow> string list \<Rightarrow> string list \<Rightarrow> string \<Rightarrow> Issue list \<Rightarrow> string \<times> Issue list" where
  "contentsTypeLoop sp types [] requiredType issues = (requiredType, issues)"
| "contentsTypeLoop sp types (currentType # rest) requiredType issues =
     (if currentType \<in> set types then
        contentsTypeLoop sp types rest currentType
          (if requiredType \<noteq> [] then
             issues @ [mkIssue sp (''Conflict type: '' @ requiredType @ '' and '' @ currentType @ ''.'')]
           else issues)
      else contentsTypeLoop sp types rest requiredType issues)"

text \<open>
  The second loop, over \<open>index\<close>: \<open>seen\<close> holds the elements of \<open>type\<close> before \<open>index\<close>, so
  \<open>type.indexOf(currentType) !== index\<close> is \<open>currentType \<in> set seen\<close>. \<open>None\<close> stands for
  the read of \<open>span\<close> on a missing element.
\<close>

fun typeElementsLoop ::
  "string list \<Rightarrow> string option \<Rightarrow> string list \<Rightarrow> JsonValue list \<Rightarrow> string list \<Rightarrow>
   Issue list \<Rightarrow> Issue list option" where
  "typeElementsLoop types jsonKey [] elems seen issues = Some issues"
| "typeElementsLoop types jsonKey (currentType # rest) [] seen issues = None"
| "typeElementsLoop types jsonKey (currentType # rest) (currentTypeObject # elems) seen issues =
     typeElementsLoop types jsonKey rest elems (seen @ [currentType])
       (if currentType \<notin> set types \<and> jsonKey \<noteq> Some ''contents'' then
          issues @ [mkIssue (span currentTypeObject)
                      (''Invalid type. Valid types:'' @ newline @ join newline types)]
        else if currentType \<in> set seen then
          issues @ [mkIssue (span currentTypeObject)
                      (currentType @ '' has already been added before.'')]
        else issues)"

definition getInvalidTypeIssues ::
  "nat \<Rightarrow> DigitalTwinConstants \<Rightarrow> DigitalTwinMetaModelGraph \<Rightarrow> DigitalTwinMetaModelContext \<Rightarrow>
   TextDocument \<Rightarrow> JsonValue \<Rightarrow> string option \<Rightarrow> ParserCache \<Rightarrow> Issue list option Result" where
  "getInvalidTypeIssues n K g ctx document jsonValue jsonKey c =
     bindD (positionTypes n K g ctx document jsonKey c)
       (\<lambda>typesOpt c1.
          case typesOpt of
            None \<Rightarrow> returnD None c1
          | Some types \<Rightarrow>
              bindD (getType n K g ctx document jsonValue jsonKey c1)
                (\<lambda>ty c2.
                   case ty of
                     TypeString t \<Rightarrow>
                       if t \<notin> set types then
                         (case getPropertyValue jsonValue ''@type'' of
                            None \<Rightarrow> throwD
                          | Some typeValue \<Rightarrow>
                              returnD (Some [mkIssue (span typeValue)
                                               (''Invalid type. Valid types:'' @ newline @
                                                join newline types)]) c2)
                       else returnD None c2
                   | TypeArray tys \<Rightarrow>
                       (case getPropertyValue jsonValue ''@type'' of
                          None \<Rightarrow> throwD
                        | Some typeValue \<Rightarrow>
                            let issues1 =
                                  (if jsonKey = Some ''contents'' then
                                     (case contentsTypeLoop (span typeValue) types tys [] [] of
                                        (requiredType, issues) \<Rightarrow>
                                          if requiredType = [] then
                                            issues @
                                            [mkIssue (span typeValue)
                                               (''Missing required type. One of types below is required:'' @
                                                newline @ join '','' types)]
                                          else issues)
                                   else [])
                            in (case typeElementsLoop types jsonKey tys
                                       (case typeValue of ArrayValue _ _ elems \<Rightarrow> elems | _ \<Rightarrow> [])
                                       [] issues1 of
                                  None \<Rightarrow> throwD
                                | Some issues \<Rightarrow>
                                    if issues \<noteq> [] then returnD (Some issues) c2
                                    else returnD None c2))
                   | TypeNull \<Rightarrow> returnD None c2))"

text \<open>
  The part of \<open>getObjectIssues\<close> before its loop over the properties: \<open>Inl\<close> holds the
  issues of an early \<open>return\<close>, \<open>Inr\<close> the issues collected when the loop starts.
\<close>

definition objectIssuesBeforeLoop ::
  "nat \<Rightarrow> DigitalTwinConstants \<Rightarrow> DigitalTwinMetaModelGraph \<Rightarrow> DigitalTwinMetaModelContext \<Rightarrow>
   TextDocument \<Rightarrow> JsonValue \<Rightarrow> bool \<Rightarrow> string option \<Rightarrow> ParserCache \<Rightarrow>
   (Issue list + Issue list) Result" where
  "objectIssuesBeforeLoop n K g ctx document jsonValue isInlineInterface jsonKey c =
     bindD (getInvalidTypeIssues n K g ctx document jsonValue jsonKey c)
       (\<lambda>typeIssues c1.
          case typeIssues of
            Some issues \<Rightarrow> returnD (Inl issues) c1
          | None \<Rightarrow>
              bindD (getType n K g ctx document jsonValue jsonKey c1)
                (\<lambda>ty c2.
                   if ty = TypeNull \<or> ty = TypeString [] then
                     returnD (Inl [mkIssue (span jsonValue) ''@type is missing'']) c2
                   else
                     bindD (getUnexpectedPropertiesIssues n g ctx jsonValue ty c2)
                       (\<lambda>unexpectedPropertiesIssues c3.
                          returnD
                            (Inr (concat (map (\<lambda>currentType.
                                                 getMissingRequiredPropertiesIssues
                                                   jsonValue currentType isInlineInterface)
                                              (case ty of TypeArray tys \<Rightarrow> tys
                                               | TypeString t \<Rightarrow> [t] | TypeNull \<Rightarrow> [])) @
                                  unexpectedPropertiesIssues)) c3)))"

text \<open>
  The first pass. The loops of \<open>getArrayIssues\<close> over the elements and of
  \<open>getObjectIssues\<close> over the properties are the functions on lists.
\<close>

text \<open>The size of the properties of an object, for the termination of the passes.\<close>

lemma size_list_properties:
  "size_list (size_prod (\<lambda>x. 0) size) (ps :: JsonProperty list) =
   size_list (\<lambda>p. Suc (size (snd p))) ps"
  by (induction ps) auto

function getJsonValueIssues ::
  "nat \<Rightarrow> DigitalTwinConstants \<Rightarrow> DigitalTwinMetaModelGraph \<Rightarrow> DigitalTwinMetaModelContext \<Rightarrow>
   TextDocument \<Rightarrow> JsonValue \<Rightarrow> bool \<Rightarrow> string option \<Rightarrow> ParserCache \<Rightarrow> Issue list Result"
and getArrayIssues ::
  "nat \<Rightarrow> DigitalTwinConstants \<Rightarrow> DigitalTwinMetaModelGraph \<Rightarrow> DigitalTwinMetaModelContext \<Rightarrow>
   TextDocument \<Rightarrow> JsonValue list \<Rightarrow> bool \<Rightarrow> string option \<Rightarrow> Issue list \<Rightarrow> ParserCache \<Rightarrow>
   Issue list Result"
and getObjectIssues ::
  "nat \<Rightarrow> DigitalTwinConstants \<Rightarrow> DigitalTwinMetaModelGraph \<Rightarrow> DigitalTwinMetaModelContext \<Rightarrow>
   TextDocument \<Rightarrow> JsonValue \<Rightarrow> bool \<Rightarrow> string option \<Rightarrow> ParserCache \<Rightarrow> Issue list Result"
and objectPropertiesIssues ::
  "nat \<Rightarrow> DigitalTwinConstants \<Rightarrow> DigitalTwinMetaModelGraph \<Rightarrow> DigitalTwinMetaModelContext \<Rightarrow>
   TextDocument \<Rightarrow> JsonProperty list \<Rightarrow> bool \<Rightarrow> string option \<Rightarrow> Issue list \<Rightarrow> ParserCache \<Rightarrow>
   Issue list Result"
where
  "getJsonValueIssues n K g ctx document jsonValue isInlineInterface jsonKey c =
     (case jsonValue of
        ObjectValue sp fr props \<Rightarrow>
          getObjectIssues n K g ctx document jsonValue isInlineInterface jsonKey c
      | ArrayValue sp fr elems \<Rightarrow>
          bindD (getArrayIssues n K g ctx document elems isInlineInterface jsonKey [] c)
            (\<lambda>arrayIssues c1.
               returnD (arrayIssues @ getArrayElementNameIssues jsonValue isInlineInterface) c1)
      | StringValue sp fr \<Rightarrow>
          getStringIssues n K g ctx document jsonValue isInlineInterface jsonKey c
      | NumberValue sp fr \<Rightarrow> returnD [] c
      | BooleanValue sp fr \<Rightarrow> returnD [] c
      | NullValue sp fr \<Rightarrow> returnD [] c)"
| "getArrayIssues n K g ctx document [] isInlineInterface jsonKey issues c = returnD issues c"
| "getArrayIssues n K g ctx document (elementValue # rest) isInlineInterface jsonKey issues c =
     bindD (getJsonValueIssues n K g ctx document elementValue isInlineInterface jsonKey c)
       (\<lambda>elementIssues c1.
          getArrayIssues n K g ctx document rest isInlineInterface jsonKey
            (issues @ elementIssues) c1)"
| "getObjectIssues n K g ctx document jsonValue isInlineInterface jsonKey c =
     bindD (objectIssuesBeforeLoop n K g ctx document jsonValue isInlineInterface jsonKey c)
       (\<lambda>r c1.
          case r of
            Inl issues \<Rightarrow> returnD issues c1
          | Inr issues \<Rightarrow>
              objectPropertiesIssues n K g ctx document (properties jsonValue)
                isInlineInterface jsonKey issues c1)"
| "objectPropertiesIssues n K g ctx document [] isInlineInterface jsonKey issues c =
     returnD issues c"
| "objectPropertiesIssues n K g ctx document (property # rest) isInlineInterface jsonKey issues c =
     (let propertyName = snd (fst property);
          inline = (\<not> isInlineInterface \<and> jsonKey = Some ''implements'' \<and> propertyName = ''schema'')
      in bindD (getJsonValueIssues n K g ctx document (snd property)
                  (isInlineInterface \<or> inline)
                  (Some (if inline then inlineInterfaceKeyName K else propertyName)) c)
           (\<lambda>childIssues c1.
              objectPropertiesIssues n K g ctx document rest isInlineInterface jsonKey
                (issues @ childIssues) c1))"
  by pat_completeness auto

termination
  by (relation "measure (\<lambda>x. case x of
         Inl (Inl (n, K, g, ctx, document, v, r)) \<Rightarrow> 2 * size v + 2
       | Inl (Inr (n, K, g, ctx, document, elems, r)) \<Rightarrow> 2 * size_list size elems + 1
       | Inr (Inl (n, K, g, ctx, document, v, r)) \<Rightarrow>
           2 * size_list (\<lambda>p. Suc (size (snd p))) (properties v) + 1
       | Inr (Inr (n, K, g, ctx, document, props, r)) \<Rightarrow>
           2 * size_list (\<lambda>p. Suc (size (snd p))) props)")
     (auto simp: size_list_properties)

declare getJsonValueIssues.simps [simp del] getObjectIssues.simps [simp del]

text \<open>
  The start of \<open>getTypeIssues\<close>: the raw value types of the key, or \<open>None\<close> where the
  function returns at once because the key has no id. (The array \<open>validTypes\<close> that the
  source fills beside it is never read: the check that used it is commented out.)
\<close>

definition rawValueTypesOf ::
  "nat \<Rightarrow> DigitalTwinMetaModelGraph \<Rightarrow> DigitalTwinMetaModelContext \<Rightarrow> string option \<Rightarrow> bool \<Rightarrow>
   ParserCache \<Rightarrow> string list option Result" where
  "rawValueTypesOf n g ctx jsonKey isArrayElement c =
     (case jsonKey of
        None \<Rightarrow> returnD (Some [''object'']) c
      | Some key \<Rightarrow>
          if key = [] then returnD (Some [''object'']) c
          else if \<not> isArrayElement \<and> isArrayFromShortName key then returnD (Some [''array'']) c
          else (case getIdFromShortName ctx key of
                  None \<Rightarrow> returnD None c
                | Some ident \<Rightarrow>
                    if ident = [] then returnD None c
                    else bindD (liftT (getValueTypesFromId n g ctx c ident))
                           (\<lambda>rawValueTypes c1. returnD (Some rawValueTypes) c1)))"

function getTypeIssues ::
  "nat \<Rightarrow> DigitalTwinMetaModelGraph \<Rightarrow> DigitalTwinMetaModelContext \<Rightarrow> TextDocument \<Rightarrow>
   JsonValue \<Rightarrow> string option \<Rightarrow> bool \<Rightarrow> ParserCache \<Rightarrow> Issue list Result"
and typeIssuesElements ::
  "nat \<Rightarrow> DigitalTwinMetaModelGraph \<Rightarrow> DigitalTwinMetaModelContext \<Rightarrow> TextDocument \<Rightarrow>
   JsonValue list \<Rightarrow> string option \<Rightarrow> Issue list \<Rightarrow> ParserCache \<Rightarrow> Issue list Result"
and typeIssuesProperties ::
  "nat \<Rightarrow> DigitalTwinMetaModelGraph \<Rightarrow> DigitalTwinMetaModelContext \<Rightarrow> TextDocument \<Rightarrow>
   JsonProperty list \<Rightarrow> Issue list \<Rightarrow> ParserCache \<Rightarrow> Issue list Result"
where
  "getTypeIssues n g ctx document jsonValue jsonKey isArrayElement c =
     bindD (rawValueTypesOf n g ctx jsonKey isArrayElement c)
       (\<lambda>raw c1.
          case raw of
            None \<Rightarrow> returnD [] c1
          | Some rawValueTypes \<Rightarrow>
              (case jsonValue of
                 ArrayValue sp fr elems \<Rightarrow> typeIssuesElements n g ctx document elems jsonKey [] c1
               | ObjectValue sp fr props \<Rightarrow> typeIssuesProperties n g ctx document props [] c1
               | NumberValue sp fr \<Rightarrow>
                   if ''float'' \<notin> set rawValueTypes \<and> ''double'' \<notin> set rawValueTypes \<and>
                      notInteger (Number fr)
                   then returnD [mkIssue sp (''Invalid value. Valid value is '' @
                                             join '', '' rawValueTypes @ ''.'')] c1
                   else returnD [] c1
               | _ \<Rightarrow> returnD [] c1))"
| "typeIssuesElements n g ctx document [] jsonKey issues c = returnD issues c"
| "typeIssuesElements n g ctx document (element # rest) jsonKey issues c =
     bindD (getTypeIssues n g ctx document element jsonKey True c)
       (\<lambda>elementIssues c1.
          typeIssuesElements n g ctx document rest jsonKey (issues @ elementIssues) c1)"
| "typeIssuesProperties n g ctx document [] issues c = returnD issues c"
| "typeIssuesProperties n g ctx document (property # rest) issues c =
     bindD (getTypeIssues n g ctx document (snd property) (Some (snd (fst property))) False c)
       (\<lambda>valueIssues c1.
          typeIssuesProperties n g ctx document rest (issues @ valueIssues) c1)"
  by pat_completeness auto

termination
  by (relation "measure (\<lambda>x. case x of
         Inl (n, g, ctx, document, v, r) \<Rightarrow> 2 * size v + 2
       | Inr (Inl (n, g, ctx, document, elems, r)) \<Rightarrow> 2 * size_list size elems + 1
       | Inr (Inr (n, g, ctx, document, props, r)) \<Rightarrow>
           2 * size_list (\<lambda>p. Suc (size (snd p))) props + 1)")
     (auto simp: size_list_properties)

declare getTypeIssues.simps [simp del]

definition getIssues ::
  "nat \<Rightarrow> DigitalTwinConstants \<Rightarrow> (string \<Rightarrow> ParseResult option) \<Rightarrow> DigitalTwinMetaModelGraph \<Rightarrow>
   DigitalTwinMetaModelContext \<Rightarrow> TextDocument \<Rightarrow> ParserCache \<Rightarrow> Issue list Result" where
  "getIssues n K parse g ctx document c =
     (case parse (getText document) of
        None \<Rightarrow> returnD [] c
      | Some json \<Rightarrow>
          (case parsedValue json of
             None \<Rightarrow> returnD [] c
           | Some v \<Rightarrow>
               bindD (getJsonValueIssues n K g ctx document v False None c)
                 (\<lambda>issues c1.
                    bindD (getTypeIssues n g ctx document v None False c1)
                      (\<lambda>typeIssues c2. returnD (issues @ typeIssues) c2))))"

text \<open>
  Modelled from the spec: the parser \<open>Json.parse\<close> is not part of the sources at hand.
  By the spec a document that cannot be parsed yields no value tree; \<open>getIssues\<close>
  tests for that with \<open>!json || !json.value\<close>.
\<close>

definition failsToParse :: "(string \<Rightarrow> ParseResult option) \<Rightarrow> string \<Rightarrow> bool" where
  "failsToParse parse txt =
     (case parse txt of None \<Rightarrow> True | Some json \<Rightarrow> parsedValue json = None)"

text \<open>A document, and the constants and the parser given to the engine, for evaluation.\<close>

definition exampleSpan :: "nat \<Rightarrow> nat \<Rightarrow> Span" where
  "exampleSpan i j = \<lparr>startIndex = i, endIndex = j\<rparr>"

definition exampleDocument :: TextDocument where
  "exampleDocument = \<lparr>fileName = ''sensor.interface.json'', fsPath = ''sensor.interface.json'',
                        getText = ''{}''\<rparr>"

definition exampleConstants :: DigitalTwinConstants where
  "exampleConstants =
     \<lparr>ModelType_Interface = ''Interface'', ModelType_CapabilityModel = ''CapabilityModel'',
      ContextUris_interface = ''http://azureiot.com/v1/contexts/Interface.json'',
      ContextUris_capabilityModel = ''http://azureiot.com/v1/contexts/CapabilityModel.json'',
      ContextUris_iotModel = ''http://azureiot.com/v1/contexts/IoTModel.json'',
      inlineInterfaceKeyName = ''inlineInterface''\<rparr>"

definition exampleParse :: "string \<Rightarrow> ParseResult option" where
  "exampleParse txt =
     (if txt = ''{}'' then Some (ParseResult (Some (ObjectValue (exampleSpan 0 1) ''(object)'' [])))
      else if txt = [] then None
      else Some (ParseResult None))"

definition schemaContext :: DigitalTwinMetaModelContext where
  "schemaContext =
     [(''@vocab'', CtxString ''http://azureiot.com/v1/classes/''),
      (''schema'', CtxString ''InterfaceInstance/schema'')]"

text \<open>A context in which the key \<open>contents\<close>, one of the keys read as arrays, has the id \<open>dt:ratio\<close>.\<close>

definition contentsContext :: DigitalTwinMetaModelContext where
  "contentsContext = [(''@vocab'', CtxString ''dt:''), (''contents'', CtxString ''ratio'')]"

text \<open>
  Termination. The ids that occur in the graph, the fuel that suffices for every id at
  once, and a diagnostics run that comes back (with issues or with a thrown error).
  \<open>cyclicGraph\<close> holds one class that is its own subclass.
\<close>

definition nodeIds :: "DigitalTwinMetaModelGraph \<Rightarrow> string list" where
  "nodeIds g = map (\<lambda>e. NodeId (SourceNode e)) (Edges g) @
               map (\<lambda>e. NodeId (TargetNode e)) (Edges g)"

definition allReturn ::
  "nat \<Rightarrow> DigitalTwinMetaModelGraph \<Rightarrow> DigitalTwinMetaModelContext \<Rightarrow> bool" where
  "allReturn n g ctx =
     (\<forall>i. returns (getPropertiesFromId n g ctx) i \<and> returns (getTypesFromId n g ctx) i \<and>
          returns (getStringValuesFromId n g ctx) i)"

definition completes :: "'a Result \<Rightarrow> bool" where
  "completes r = (r \<noteq> None)"

definition cyclicGraph :: DigitalTwinMetaModelGraph where
  "cyclicGraph = \<lparr>Nodes = [], Edges = [mkEdge ''dt:Loop'' LABEL_SUBCLASS ''dt:Loop'']\<rparr>"

section \<open>The memo tables and the reference queries\<close>

lemma LABEL_distinct [simp]:
  "LABEL_DOMAIN \<noteq> LABEL_SUBCLASS" "LABEL_SUBCLASS \<noteq> LABEL_DOMAIN"
  "LABEL_DOMAIN \<noteq> LABEL_RANGE" "LABEL_RANGE \<noteq> LABEL_DOMAIN"
  "LABEL_DOMAIN \<noteq> LABEL_TYPE" "LABEL_TYPE \<noteq> LABEL_DOMAIN"
  "LABEL_SUBCLASS \<noteq> LABEL_RANGE" "LABEL_RANGE \<noteq> LABEL_SUBCLASS"
  "LABEL_SUBCLASS \<noteq> LABEL_TYPE" "LABEL_TYPE \<noteq> LABEL_SUBCLASS"
  "LABEL_RANGE \<noteq> LABEL_TYPE" "LABEL_TYPE \<noteq> LABEL_RANGE"
  by (simp_all add: LABEL_DOMAIN_def LABEL_SUBCLASS_def LABEL_RANGE_def LABEL_TYPE_def)

lemma memo_ok_empty [simp]: "memo_ok P Map.empty"
  by (simp add: memo_ok_def)

lemma memo_ok_upd: "memo_ok P m \<Longrightarrow> P k v \<Longrightarrow> memo_ok P (m(k \<mapsto> v))"
  by (simp add: memo_ok_def)

lemma memo_okD: "memo_ok P m \<Longrightarrow> m k = Some v \<Longrightarrow> P k v"
  by (simp add: memo_ok_def)

lemma cache_ok_emptyCache [simp]: "cache_ok g ctx emptyCache"
  by (simp add: cache_ok_def emptyCache_def)

lemma cache_ok_PropertiesFromId:
  "cache_ok g ctx c \<Longrightarrow> propertiesOf m g ctx i = Some r \<Longrightarrow>
   cache_ok g ctx (c\<lparr>PropertiesFromId := (PropertiesFromId c)(i \<mapsto> r)\<rparr>)"
  by (auto simp: cache_ok_def intro!: memo_ok_upd)

lemma cache_ok_TypesFromId:
  "cache_ok g ctx c \<Longrightarrow> typesOf m g ctx i = Some r \<Longrightarrow>
   cache_ok g ctx (c\<lparr>TypesFromId := (TypesFromId c)(i \<mapsto> r)\<rparr>)"
  by (auto simp: cache_ok_def intro!: memo_ok_upd)

lemma cache_ok_StringValuesFromId:
  "cache_ok g ctx c \<Longrightarrow> stringValuesOf m g ctx i = Some r \<Longrightarrow>
   cache_ok g ctx (c\<lparr>StringValuesFromId := (StringValuesFromId c)(i \<mapsto> r)\<rparr>)"
  by (auto simp: cache_ok_def intro!: memo_ok_upd)

lemma cache_ok_ValueTypesFromId:
  "cache_ok g ctx c \<Longrightarrow> valueTypesOf m g ctx i = Some r \<Longrightarrow>
   cache_ok g ctx (c\<lparr>ValueTypesFromId := (ValueTypesFromId c)(i \<mapsto> r)\<rparr>)"
  by (auto simp: cache_ok_def intro!: memo_ok_upd)

lemma cache_ok_TypedPropertiesFromId:
  "cache_ok g ctx c \<Longrightarrow> typedPropertiesOf m g ctx i = Some r \<Longrightarrow>
   cache_ok g ctx (c\<lparr>TypedPropertiesFromId := (TypedPropertiesFromId c)(i \<mapsto> r)\<rparr>)"
  by (auto simp: cache_ok_def intro!: memo_ok_upd)

lemma getPropertyNameFromId_cases:
  "getPropertyNameFromId ctx c i = (k, c') \<Longrightarrow>
     (PropertyNameFromId c i = Some k \<and> c' = c) \<or>
     (k = propertyNameOf ctx i \<and>
      (c' = c \<or> c' = c\<lparr>PropertyNameFromId := (PropertyNameFromId c)(i \<mapsto> k)\<rparr>))"
  by (auto simp: getPropertyNameFromId_def propertyNameOf_def split: option.splits if_splits)

lemma getPropertyNameFromId_sim:
  assumes "cache_ok g ctx c" "getPropertyNameFromId ctx c i = (k, c')"
  shows "k = propertyNameOf ctx i \<and> cache_ok g ctx c'"
proof -
  from assms(1) have n: "memo_ok (\<lambda>i k. k = propertyNameOf ctx i) (PropertyNameFromId c)"
    by (simp add: cache_ok_def)
  from getPropertyNameFromId_cases [OF assms(2)] show ?thesis
  proof (elim disjE conjE)
    assume "PropertyNameFromId c i = Some k" "c' = c"
    with memo_okD [OF n] assms(1) show ?thesis by simp
  next
    assume "k = propertyNameOf ctx i" "c' = c"
    with assms(1) show ?thesis by simp
  next
    assume "k = propertyNameOf ctx i"
      "c' = c\<lparr>PropertyNameFromId := (PropertyNameFromId c)(i \<mapsto> k)\<rparr>"
    with assms(1) show ?thesis
      by (simp add: cache_ok_def memo_ok_upd)
  qed
qed

lemma getShortNameFromLabel_sim:
  assumes "cache_ok g ctx c" "getShortNameFromLabel ctx c l = (s, c')"
  shows "s = shortNameOfLabel ctx l \<and> cache_ok g ctx c'"
proof (cases "ShortNameFromLabel c l")
  case None
  with assms(2) have "s = shortNameOfLabel ctx l"
    and "c' = c\<lparr>ShortNameFromLabel := (ShortNameFromLabel c)(l \<mapsto> s)\<rparr>"
    by (auto simp: getShortNameFromLabel_def shortNameOfLabel_def split: option.splits if_splits)
  with assms(1) show ?thesis
    by (simp add: cache_ok_def memo_ok_upd)
next
  case (Some cached)
  with assms(2) have "s = cached" "c' = c"
    by (auto simp: getShortNameFromLabel_def)
  moreover from assms(1) have "memo_ok (\<lambda>l s. s = shortNameOfLabel ctx l) (ShortNameFromLabel c)"
    by (simp add: cache_ok_def)
  from memo_okD [OF this Some] have "cached = shortNameOfLabel ctx l" .
  ultimately show ?thesis using assms(1) by simp
qed

subsection \<open>fuel monotonicity of the reference queries\<close>

lemma concatIfP_mono:
  assumes "\<And>i r. rec i = Some r \<Longrightarrow> rec' i = Some r"
  shows "concatIfP b rec i xs = Some r \<Longrightarrow> concatIfP b rec' i xs = Some r"
  using assms by (auto simp: concatIfP_def split: option.splits if_splits)

lemma propertiesLoopP_mono:
  assumes "\<And>i r. rec i = Some r \<Longrightarrow> rec' i = Some r"
  shows "propertiesLoopP rec ctx ident es acc = Some r \<Longrightarrow>
         propertiesLoopP rec' ctx ident es acc = Some r"
  using assms
  by (induction es arbitrary: acc) (auto split: option.splits if_splits)

lemma typesLoopP_mono:
  assumes "\<And>i r. rec i = Some r \<Longrightarrow> rec' i = Some r"
  shows "typesLoopP rec ident es acc = Some r \<Longrightarrow> typesLoopP rec' ident es acc = Some r"
proof (induction es arbitrary: acc)
  case Nil
  then show ?case by simp
next
  case (Cons edge rest)
  from Cons.prems obtain t1 t2 where
    a: "concatIfP (NodeId (SourceNode edge) = ident \<and> Label edge = LABEL_RANGE)
             rec (NodeId (TargetNode edge)) acc = Some t1"
    and b: "concatIfP (NodeId (TargetNode edge) = ident \<and> Label edge = LABEL_SUBCLASS)
                  rec (NodeId (SourceNode edge)) t1 = Some t2"
    and c: "typesLoopP rec ident rest t2 = Some r"
    by (auto split: option.splits)
  from concatIfP_mono [OF assms a] concatIfP_mono [OF assms b] Cons.IH [OF c]
  show ?case by simp
qed

lemma stringValuesLoopP_mono:
  assumes "\<And>i r. rec i = Some r \<Longrightarrow> rec' i = Some r"
  shows "stringValuesLoopP rec ident es acc h = Some r \<Longrightarrow>
         stringValuesLoopP rec' ident es acc h = Some r"
proof (induction es arbitrary: acc h)
  case Nil
  then show ?case by simp
next
  case (Cons edge rest)
  let ?h = "(if NodeId (TargetNode edge) = ident \<and> Label edge = LABEL_DOMAIN then True else h)"
  from Cons.prems obtain t1 t2 t3 where
    a: "concatIfP (NodeId (SourceNode edge) = ident \<and> Label edge = LABEL_RANGE)
             rec (NodeId (TargetNode edge)) acc = Some t1"
    and b: "concatIfP (NodeId (TargetNode edge) = ident \<and> Label edge = LABEL_SUBCLASS)
                  rec (NodeId (SourceNode edge)) t1 = Some t2"
    and c: "concatIfP (NodeId (TargetNode edge) = ident \<and> Label edge = LABEL_TYPE)
                  rec (NodeId (SourceNode edge)) t2 = Some t3"
    and d: "stringValuesLoopP rec ident rest t3 ?h = Some r"
    by (auto simp: Let_def split: option.splits)
  from concatIfP_mono [OF assms a] concatIfP_mono [OF assms b] concatIfP_mono [OF assms c]
    Cons.IH [OF d]
  show ?case by (simp add: Let_def)
qed

lemma propertiesOf_mono:
  "propertiesOf n g ctx i = Some r \<Longrightarrow> n \<le> m \<Longrightarrow> propertiesOf m g ctx i = Some r"
proof (induction n arbitrary: m i r)
  case 0
  then show ?case by simp
next
  case (Suc n)
  then obtain m' where m: "m = Suc m'" and le: "n \<le> m'"
    by (cases m) auto
  show ?case
  proof (cases "isInternationalizationFromId ctx i")
    case True
    with Suc.prems m show ?thesis by simp
  next
    case False
    with Suc.prems obtain ps where
      ps: "propertiesLoopP (propertiesOf n g ctx) ctx i (Edges g) [] = Some ps"
      and r: "r = sort (uniq ps)"
      by (auto split: option.splits)
    have "propertiesLoopP (propertiesOf m' g ctx) ctx i (Edges g) [] = Some ps"
      by (rule propertiesLoopP_mono [OF _ ps]) (rule Suc.IH [OF _ le])
    with False r m show ?thesis by simp
  qed
qed

lemma typesOf_mono:
  "typesOf n g ctx i = Some r \<Longrightarrow> n \<le> m \<Longrightarrow> typesOf m g ctx i = Some r"
proof (induction n arbitrary: m i r)
  case 0
  then show ?case by simp
next
  case (Suc n)
  then obtain m' where m: "m = Suc m'" and le: "n \<le> m'"
    by (cases m) auto
  from Suc.prems obtain ts where
    ts: "typesLoopP (typesOf n g ctx) i (Edges g) [] = Some ts"
    by (auto split: option.splits)
  have "typesLoopP (typesOf m' g ctx) i (Edges g) [] = Some ts"
    by (rule typesLoopP_mono [OF _ ts]) (rule Suc.IH [OF _ le])
  with Suc.prems(1) ts m show ?case by simp
qed

lemma stringValuesOf_mono:
  "stringValuesOf n g ctx i = Some r \<Longrightarrow> n \<le> m \<Longrightarrow> stringValuesOf m g ctx i = Some r"
proof (induction n arbitrary: m i r)
  case 0
  then show ?case by simp
next
  case (Suc n)
  then obtain m' where m: "m = Suc m'" and le: "n \<le> m'"
    by (cases m) auto
  from Suc.prems obtain vs where
    vs: "stringValuesLoopP (stringValuesOf n g ctx) i (Edges g) [] False = Some vs"
    by (auto split: option.splits)
  have "stringValuesLoopP (stringValuesOf m' g ctx) i (Edges g) [] False = Some vs"
    by (rule stringValuesLoopP_mono [OF _ vs]) (rule Suc.IH [OF _ le])
  with Suc.prems(1) vs m show ?case by simp
qed

lemma valueTypesOf_mono:
  "valueTypesOf n g ctx i = Some r \<Longrightarrow> n \<le> m \<Longrightarrow> valueTypesOf m g ctx i = Some r"
  by (auto simp: valueTypesOf_def split: if_splits option.splits dest: stringValuesOf_mono)

lemma typedPropertiesLoopP_mono:
  "typedPropertiesLoopP n g ctx req keys acc = Some r \<Longrightarrow> n \<le> m \<Longrightarrow>
   typedPropertiesLoopP m g ctx req keys acc = Some r"
proof (induction keys arbitrary: acc)
  case Nil
  then show ?case by simp
next
  case (Cons key keys)
  show ?case
  proof (cases "getIdFromShortName ctx key")
    case None
    with Cons show ?thesis by simp
  next
    case (Some i)
    show ?thesis
    proof (cases "i = [] \<or> isArrayFromShortName key")
      case True
      with Some Cons show ?thesis by auto
    next
      case False
      with Some Cons.prems obtain vts where
        v: "valueTypesOf n g ctx i = Some vts"
        by (auto split: option.splits)
      from valueTypesOf_mono [OF v Cons.prems(2)] v False Some Cons show ?thesis
        by simp
    qed
  qed
qed

lemma typedPropertiesOf_mono:
  assumes "typedPropertiesOf n g ctx i = Some r" "n \<le> m"
  shows "typedPropertiesOf m g ctx i = Some r"
proof (cases "isInternationalizationFromId ctx i")
  case True
  with assms show ?thesis by (simp add: typedPropertiesOf_def)
next
  case False
  with assms(1) obtain keys where
    k: "propertiesOf n g ctx i = Some keys"
    and l: "typedPropertiesLoopP n g ctx
               (if getShortNameFromId ctx i \<noteq> []
                then getRequiredPropertiesFromType (getShortNameFromId ctx i) else [])
               keys [] = Some r"
    by (auto simp: typedPropertiesOf_def split: option.splits)
  from propertiesOf_mono [OF k assms(2)] typedPropertiesLoopP_mono [OF l assms(2)] False
  show ?thesis by (simp add: typedPropertiesOf_def)
qed

subsection \<open>The memoized queries return the values of the reference queries\<close>

lemma simD:
  "sim g ctx recP rec \<Longrightarrow> cache_ok g ctx c \<Longrightarrow> rec c i = Some (r, c') \<Longrightarrow>
   (\<exists>m. recP m i = Some r) \<and> cache_ok g ctx c'"
  unfolding sim_def by blast

lemma concatIf_sim:
  assumes rec: "sim g ctx recP rec"
    and "cache_ok g ctx c" "concatIf b rec i xs c = Some (r, c')"
  shows "(\<exists>m. concatIfP b (recP m) i xs = Some r) \<and> cache_ok g ctx c'"
proof (cases b)
  case True
  with assms(3) obtain r1 where call: "rec c i = Some (r1, c')" and r: "r = xs @ r1"
    by (auto simp: concatIf_def split: option.splits)
  from simD [OF rec assms(2) call] obtain m where "recP m i = Some r1" "cache_ok g ctx c'"
    by blast
  with True r have "concatIfP b (recP m) i xs = Some r" "cache_ok g ctx c'"
    by (simp_all add: concatIfP_def)
  then show ?thesis by blast
next
  case False
  with assms show ?thesis by (simp add: concatIf_def concatIfP_def)
qed

lemma propertiesLoop_sim:
  assumes rec: "sim g ctx (\<lambda>m. propertiesOf m g ctx) rec"
  shows "cache_ok g ctx c \<Longrightarrow> propertiesLoop rec ctx ident es acc c = Some (r, c') \<Longrightarrow>
         (\<exists>m. propertiesLoopP (propertiesOf m g ctx) ctx ident es acc = Some r) \<and>
         cache_ok g ctx c'"
proof (induction es arbitrary: acc c)
  case Nil
  then show ?case by simp
next
  case (Cons edge rest)
  show ?case
  proof (cases "NodeId (TargetNode edge) = ident \<and> Label edge = LABEL_DOMAIN")
    case True
    obtain name c1 where n: "getPropertyNameFromId ctx c (NodeId (SourceNode edge)) = (name, c1)"
      by (cases "getPropertyNameFromId ctx c (NodeId (SourceNode edge))")
    from getPropertyNameFromId_sim [OF Cons.prems(1) n]
    have name: "name = propertyNameOf ctx (NodeId (SourceNode edge))"
      and ok1: "cache_ok g ctx c1"
      by auto
    from Cons.prems(2) n
    have run: "propertiesLoop rec ctx ident rest (acc @ [name]) c1 = Some (r, c')"
      unfolding propertiesLoop.simps if_P [OF True] by simp
    from Cons.IH [OF ok1 run] obtain m where
      m: "propertiesLoopP (propertiesOf m g ctx) ctx ident rest (acc @ [name]) = Some r"
      and ok: "cache_ok g ctx c'"
      by blast
    from m have "propertiesLoopP (propertiesOf m g ctx) ctx ident (edge # rest) acc = Some r"
      unfolding propertiesLoopP.simps if_P [OF True] name .
    with ok show ?thesis by blast
  next
    case notdom: False
    show ?thesis
    proof (cases "NodeId (SourceNode edge) = ident \<and> Label edge = LABEL_SUBCLASS")
      case True
      from Cons.prems(2) obtain super c1 where
        call: "rec c (NodeId (TargetNode edge)) = Some (super, c1)"
        and run: "propertiesLoop rec ctx ident rest (acc @ super) c1 = Some (r, c')"
        unfolding propertiesLoop.simps if_not_P [OF notdom] if_P [OF True]
        by (auto split: option.splits)
      from simD [OF rec Cons.prems(1) call] obtain m1 where
        m1: "propertiesOf m1 g ctx (NodeId (TargetNode edge)) = Some super"
        and ok1: "cache_ok g ctx c1"
        by auto
      from Cons.IH [OF ok1 run] obtain m2 where
        m2: "propertiesLoopP (propertiesOf m2 g ctx) ctx ident rest (acc @ super) = Some r"
        and ok2: "cache_ok g ctx c'"
        by auto
      let ?m = "max m1 m2"
      have a: "propertiesOf ?m g ctx (NodeId (TargetNode edge)) = Some super"
        by (rule propertiesOf_mono [OF m1]) simp
      have b: "propertiesLoopP (propertiesOf ?m g ctx) ctx ident rest (acc @ super) = Some r"
        by (rule propertiesLoopP_mono [OF _ m2]) (erule propertiesOf_mono, simp)
      have "propertiesLoopP (propertiesOf ?m g ctx) ctx ident (edge # rest) acc = Some r"
        unfolding propertiesLoopP.simps if_not_P [OF notdom] if_P [OF True]
        using a b by simp
      with ok2 show ?thesis by blast
    next
      case False
      from Cons.prems(2)
      have run: "propertiesLoop rec ctx ident rest acc c = Some (r, c')"
        unfolding propertiesLoop.simps if_not_P [OF notdom] if_not_P [OF False] .
      from Cons.IH [OF Cons.prems(1) run] obtain m where
        m: "propertiesLoopP (propertiesOf m g ctx) ctx ident rest acc = Some r"
        and ok: "cache_ok g ctx c'"
        by blast
      from m have "propertiesLoopP (propertiesOf m g ctx) ctx ident (edge # rest) acc = Some r"
        unfolding propertiesLoopP.simps if_not_P [OF notdom] if_not_P [OF False] .
      with ok show ?thesis by blast
    qed
  qed
qed

lemma getPropertiesFromId_sim:
  "sim g ctx (\<lambda>m. propertiesOf m g ctx) (getPropertiesFromId n g ctx)"
proof (induction n)
  case 0
  show ?case by (simp add: sim_def)
next
  case (Suc n)
  show ?case
    unfolding sim_def
  proof (intro allI impI)
    fix c i r c'
    assume ok: "cache_ok g ctx c"
      and run: "getPropertiesFromId (Suc n) g ctx c i = Some (r, c')"
    show "(\<exists>m. propertiesOf m g ctx i = Some r) \<and> cache_ok g ctx c'"
    proof (cases "PropertiesFromId c i")
      case (Some cached)
      with run have "r = cached" "c' = c" by auto
      moreover from ok
      have "memo_ok (\<lambda>i r. \<exists>m. propertiesOf m g ctx i = Some r) (PropertiesFromId c)"
        by (simp add: cache_ok_def)
      from memo_okD [OF this Some] have "\<exists>m. propertiesOf m g ctx i = Some cached" .
      ultimately show ?thesis using ok by simp
    next
      case None
      have "\<exists>c1 m. propertiesOf (Suc m) g ctx i = Some r \<and> cache_ok g ctx c1 \<and>
              c' = c1\<lparr>PropertiesFromId := (PropertiesFromId c1)(i \<mapsto> r)\<rparr>"
      proof (cases "isInternationalizationFromId ctx i")
        case True
        with run None ok show ?thesis by (auto simp: Let_def)
      next
        case False
        with run None obtain ps c1 where
          loop: "propertiesLoop (getPropertiesFromId n g ctx) ctx i (Edges g) [] c = Some (ps, c1)"
          and r: "r = sort (uniq ps)"
          and c': "c' = c1\<lparr>PropertiesFromId := (PropertiesFromId c1)(i \<mapsto> sort (uniq ps))\<rparr>"
          by (auto simp: Let_def split: option.splits)
        from propertiesLoop_sim [OF Suc.IH ok loop] obtain m where
          m: "propertiesLoopP (propertiesOf m g ctx) ctx i (Edges g) [] = Some ps"
          and ok1: "cache_ok g ctx c1"
          by blast
        from m False r have "propertiesOf (Suc m) g ctx i = Some r" by simp
        with ok1 c' r show ?thesis by blast
      qed
      then obtain c1 m where
        p: "propertiesOf (Suc m) g ctx i = Some r" and ok1: "cache_ok g ctx c1"
        and c': "c' = c1\<lparr>PropertiesFromId := (PropertiesFromId c1)(i \<mapsto> r)\<rparr>"
        by auto
      from cache_ok_PropertiesFromId [OF ok1 p] have "cache_ok g ctx c'"
        unfolding c' .
      with p show ?thesis by blast
    qed
  qed
qed

lemma typesLoop_sim:
  assumes rec: "sim g ctx (\<lambda>m. typesOf m g ctx) rec"
  shows "cache_ok g ctx c \<Longrightarrow> typesLoop rec ident es acc c = Some (r, c') \<Longrightarrow>
         (\<exists>m. typesLoopP (typesOf m g ctx) ident es acc = Some r) \<and> cache_ok g ctx c'"
proof (induction es arbitrary: acc c)
  case Nil
  then show ?case by simp
next
  case (Cons edge rest)
  let ?b1 = "NodeId (SourceNode edge) = ident \<and> Label edge = LABEL_RANGE"
  let ?b2 = "NodeId (TargetNode edge) = ident \<and> Label edge = LABEL_SUBCLASS"
  from Cons.prems(2) obtain t1 c1 t2 c2 where
    s1: "concatIf ?b1 rec (NodeId (TargetNode edge)) acc c = Some (t1, c1)"
    and s2: "concatIf ?b2 rec (NodeId (SourceNode edge)) t1 c1 = Some (t2, c2)"
    and s3: "typesLoop rec ident rest t2 c2 = Some (r, c')"
    by (auto split: option.splits)
  from concatIf_sim [OF rec Cons.prems(1) s1]
  obtain m1 where
    m1: "concatIfP ?b1 (typesOf m1 g ctx) (NodeId (TargetNode edge)) acc = Some t1"
    and ok1: "cache_ok g ctx c1" by blast
  from concatIf_sim [OF rec ok1 s2]
  obtain m2 where
    m2: "concatIfP ?b2 (typesOf m2 g ctx) (NodeId (SourceNode edge)) t1 = Some t2"
    and ok2: "cache_ok g ctx c2" by blast
  from Cons.IH [OF ok2 s3] obtain m3 where
    m3: "typesLoopP (typesOf m3 g ctx) ident rest t2 = Some r" and ok3: "cache_ok g ctx c'"
    by blast
  let ?m = "max m1 (max m2 m3)"
  have "concatIfP ?b1 (typesOf ?m g ctx) (NodeId (TargetNode edge)) acc = Some t1"
    by (rule concatIfP_mono [OF _ m1]) (erule typesOf_mono, simp)
  moreover have "concatIfP ?b2 (typesOf ?m g ctx) (NodeId (SourceNode edge)) t1 = Some t2"
    by (rule concatIfP_mono [OF _ m2]) (erule typesOf_mono, simp)
  moreover have "typesLoopP (typesOf ?m g ctx) ident rest t2 = Some r"
    by (rule typesLoopP_mono [OF _ m3]) (erule typesOf_mono, simp)
  ultimately have "typesLoopP (typesOf ?m g ctx) ident (edge # rest) acc = Some r"
    by simp
  with ok3 show ?case by blast
qed

lemma getTypesFromId_sim:
  "sim g ctx (\<lambda>m. typesOf m g ctx) (getTypesFromId n g ctx)"
proof (induction n)
  case 0
  show ?case by (simp add: sim_def)
next
  case (Suc n)
  show ?case
    unfolding sim_def
  proof (intro allI impI)
    fix c i r c'
    assume ok: "cache_ok g ctx c"
      and run: "getTypesFromId (Suc n) g ctx c i = Some (r, c')"
    show "(\<exists>m. typesOf m g ctx i = Some r) \<and> cache_ok g ctx c'"
    proof (cases "TypesFromId c i")
      case (Some cached)
      with run have "r = cached" "c' = c" by auto
      moreover from ok
      have "memo_ok (\<lambda>i r. \<exists>m. typesOf m g ctx i = Some r) (TypesFromId c)"
        by (simp add: cache_ok_def)
      from memo_okD [OF this Some] have "\<exists>m. typesOf m g ctx i = Some cached" .
      ultimately show ?thesis using ok by simp
    next
      case None
      with run obtain ts c1 where
        loop: "typesLoop (getTypesFromId n g ctx) i (Edges g) [] c = Some (ts, c1)"
        by (auto split: option.splits)
      from typesLoop_sim [OF Suc.IH ok loop] obtain m where
        m: "typesLoopP (typesOf m g ctx) i (Edges g) [] = Some ts" and ok1: "cache_ok g ctx c1"
        by blast
      obtain s c2 where lab: "getShortNameFromLabel ctx c1 (getLabelFromId ctx i) = (s, c2)"
        by (cases "getShortNameFromLabel ctx c1 (getLabelFromId ctx i)")
      from getShortNameFromLabel_sim [OF ok1 lab]
      have s: "s = shortNameOfLabel ctx (getLabelFromId ctx i)" and ok2: "cache_ok g ctx c2"
        by auto
      define c3 where "c3 = (if ts = [] then c2 else c1)"
      have ok3: "cache_ok g ctx c3"
        using ok1 ok2 by (simp add: c3_def)
      from run None loop lab s m
      have r: "typesOf (Suc m) g ctx i = Some r"
        by (cases "shortNameOfLabel ctx (getLabelFromId ctx i)")
           (auto simp: Let_def split: if_splits)
      from run None loop lab
      have c': "c' = c3\<lparr>TypesFromId := (TypesFromId c3)(i \<mapsto> r)\<rparr>"
        by (cases s) (auto simp: Let_def c3_def split: if_splits)
      from cache_ok_TypesFromId [OF ok3 r] have "cache_ok g ctx c'"
        unfolding c' .
      with r show ?thesis by blast
    qed
  qed
qed


lemma stringValuesLoop_sim:
  assumes rec: "sim g ctx (\<lambda>m. stringValuesOf m g ctx) rec"
  shows "cache_ok g ctx c \<Longrightarrow> stringValuesLoop rec ident es acc h c = Some (r, h', c') \<Longrightarrow>
         (\<exists>m. stringValuesLoopP (stringValuesOf m g ctx) ident es acc h = Some (r, h')) \<and>
         cache_ok g ctx c'"
proof (induction es arbitrary: acc h c)
  case Nil
  then show ?case by simp
next
  case (Cons edge rest)
  let ?b1 = "NodeId (SourceNode edge) = ident \<and> Label edge = LABEL_RANGE"
  let ?b2 = "NodeId (TargetNode edge) = ident \<and> Label edge = LABEL_SUBCLASS"
  let ?b3 = "NodeId (TargetNode edge) = ident \<and> Label edge = LABEL_TYPE"
  let ?h = "(if NodeId (TargetNode edge) = ident \<and> Label edge = LABEL_DOMAIN then True else h)"
  from Cons.prems(2) obtain t1 c1 t2 c2 t3 c3 where
    s1: "concatIf ?b1 rec (NodeId (TargetNode edge)) acc c = Some (t1, c1)"
    and s2: "concatIf ?b2 rec (NodeId (SourceNode edge)) t1 c1 = Some (t2, c2)"
    and s3: "concatIf ?b3 rec (NodeId (SourceNode edge)) t2 c2 = Some (t3, c3)"
    and s4: "stringValuesLoop rec ident rest t3 ?h c3 = Some (r, h', c')"
    by (auto simp: Let_def split: option.splits)
  from concatIf_sim [OF rec Cons.prems(1) s1]
  obtain m1 where
    m1: "concatIfP ?b1 (stringValuesOf m1 g ctx) (NodeId (TargetNode edge)) acc = Some t1"
    and ok1: "cache_ok g ctx c1" by blast
  from concatIf_sim [OF rec ok1 s2]
  obtain m2 where
    m2: "concatIfP ?b2 (stringValuesOf m2 g ctx) (NodeId (SourceNode edge)) t1 = Some t2"
    and ok2: "cache_ok g ctx c2" by blast
  from concatIf_sim [OF rec ok2 s3]
  obtain m3 where
    m3: "concatIfP ?b3 (stringValuesOf m3 g ctx) (NodeId (SourceNode edge)) t2 = Some t3"
    and ok3: "cache_ok g ctx c3" by blast
  from Cons.IH [OF ok3 s4] obtain m4 where
    m4: "stringValuesLoopP (stringValuesOf m4 g ctx) ident rest t3 ?h = Some (r, h')"
    and ok4: "cache_ok g ctx c'"
    by blast
  let ?m = "max (max m1 m2) (max m3 m4)"
  have "concatIfP ?b1 (stringValuesOf ?m g ctx) (NodeId (TargetNode edge)) acc = Some t1"
    by (rule concatIfP_mono [OF _ m1]) (erule stringValuesOf_mono, simp)
  moreover
  have "concatIfP ?b2 (stringValuesOf ?m g ctx) (NodeId (SourceNode edge)) t1 = Some t2"
    by (rule concatIfP_mono [OF _ m2]) (erule stringValuesOf_mono, simp)
  moreover
  have "concatIfP ?b3 (stringValuesOf ?m g ctx) (NodeId (SourceNode edge)) t2 = Some t3"
    by (rule concatIfP_mono [OF _ m3]) (erule stringValuesOf_mono, simp)
  moreover have "stringValuesLoopP (stringValuesOf ?m g ctx) ident rest t3 ?h = Some (r, h')"
    by (rule stringValuesLoopP_mono [OF _ m4]) (erule stringValuesOf_mono, simp)
  ultimately
  have "stringValuesLoopP (stringValuesOf ?m g ctx) ident (edge # rest) acc h = Some (r, h')"
    by (simp add: Let_def)
  with ok4 show ?case by blast
qed

lemma getStringValuesFromId_sim:
  "sim g ctx (\<lambda>m. stringValuesOf m g ctx) (getStringValuesFromId n g ctx)"
proof (induction n)
  case 0
  show ?case by (simp add: sim_def)
next
  case (Suc n)
  show ?case
    unfolding sim_def
  proof (intro allI impI)
    fix c i r c'
    assume ok: "cache_ok g ctx c"
      and run: "getStringValuesFromId (Suc n) g ctx c i = Some (r, c')"
    show "(\<exists>m. stringValuesOf m g ctx i = Some r) \<and> cache_ok g ctx c'"
    proof (cases "StringValuesFromId c i")
      case (Some cached)
      with run have "r = cached" "c' = c" by auto
      moreover from ok
      have "memo_ok (\<lambda>i r. \<exists>m. stringValuesOf m g ctx i = Some r) (StringValuesFromId c)"
        by (simp add: cache_ok_def)
      from memo_okD [OF this Some] have "\<exists>m. stringValuesOf m g ctx i = Some cached" .
      ultimately show ?thesis using ok by simp
    next
      case None
      with run obtain vs h c1 where
        loop: "stringValuesLoop (getStringValuesFromId n g ctx) i (Edges g) [] False c =
                 Some (vs, h, c1)"
        by (auto split: option.splits)
      from stringValuesLoop_sim [OF Suc.IH ok loop] obtain m where
        m: "stringValuesLoopP (stringValuesOf m g ctx) i (Edges g) [] False = Some (vs, h)"
        and ok1: "cache_ok g ctx c1"
        by blast
      from run None loop m
      have r: "stringValuesOf (Suc m) g ctx i = Some r"
        by (auto simp: Let_def split: if_splits)
      from run None loop
      have c': "c' = c1\<lparr>StringValuesFromId := (StringValuesFromId c1)(i \<mapsto> r)\<rparr>"
        by (auto simp: Let_def split: if_splits)
      from cache_ok_StringValuesFromId [OF ok1 r] have "cache_ok g ctx c'"
        unfolding c' .
      with r show ?thesis by blast
    qed
  qed
qed

lemma getValueTypesFromId_sim:
  "sim g ctx (\<lambda>m. valueTypesOf m g ctx) (getValueTypesFromId n g ctx)"
  unfolding sim_def
proof (intro allI impI)
  fix c i r c'
  assume ok: "cache_ok g ctx c"
    and run: "getValueTypesFromId n g ctx c i = Some (r, c')"
  show "(\<exists>m. valueTypesOf m g ctx i = Some r) \<and> cache_ok g ctx c'"
  proof (cases "i = []")
    case True
    with run ok show ?thesis by (auto simp: getValueTypesFromId_def valueTypesOf_def)
  next
    case ne: False
    show ?thesis
    proof (cases "ValueTypesFromId c i")
      case (Some cached)
      with run ne have "r = cached" "c' = c" by (auto simp: getValueTypesFromId_def)
      moreover from ok
      have "memo_ok (\<lambda>i r. \<exists>m. valueTypesOf m g ctx i = Some r) (ValueTypesFromId c)"
        by (simp add: cache_ok_def)
      from memo_okD [OF this Some] have "\<exists>m. valueTypesOf m g ctx i = Some cached" .
      ultimately show ?thesis using ok by simp
    next
      case None
      with run ne obtain vs c1 where
        call: "getStringValuesFromId n g ctx c i = Some (vs, c1)"
        and r: "r = concat (map valueTypeOf vs)"
        and c': "c' = c1\<lparr>ValueTypesFromId := (ValueTypesFromId c1)(i \<mapsto> r)\<rparr>"
        by (auto simp: getValueTypesFromId_def Let_def split: option.splits)
      from simD [OF getStringValuesFromId_sim ok call] obtain m where
        m: "stringValuesOf m g ctx i = Some vs" and ok1: "cache_ok g ctx c1"
        by blast
      from m r ne have v: "valueTypesOf m g ctx i = Some r"
        by (simp add: valueTypesOf_def)
      from cache_ok_ValueTypesFromId [OF ok1 v] have "cache_ok g ctx c'"
        unfolding c' .
      with v show ?thesis by blast
    qed
  qed
qed

lemma typedPropertiesLoop_sim:
  "cache_ok g ctx c \<Longrightarrow> typedPropertiesLoop n g ctx req keys acc c = Some (r, c') \<Longrightarrow>
   (\<exists>m. typedPropertiesLoopP m g ctx req keys acc = Some r) \<and> cache_ok g ctx c'"
proof (induction keys arbitrary: acc c)
  case Nil
  then show ?case by simp
next
  case (Cons key keys)
  show ?case
  proof (cases "getIdFromShortName ctx key")
    case None
    with Cons show ?thesis by simp
  next
    case (Some i)
    show ?thesis
    proof (cases "i = []")
      case True
      with Some Cons show ?thesis by simp
    next
      case ne: False
      show ?thesis
      proof (cases "isArrayFromShortName key")
        case True
        with Some ne Cons show ?thesis by simp
      next
        case False
        with Some ne Cons.prems(2) obtain vts c1 where
          call: "getValueTypesFromId n g ctx c i = Some (vts, c1)"
          and run: "typedPropertiesLoop n g ctx req keys
                      (acc @ [\<lparr>label = key, required = (key \<in> set req),
                               type = (case vts of [] \<Rightarrow> [] | t # _ \<Rightarrow> t)\<rparr>]) c1 = Some (r, c')"
          by (auto split: option.splits)
        from simD [OF getValueTypesFromId_sim Cons.prems(1) call] obtain m1 where
          m1: "valueTypesOf m1 g ctx i = Some vts" and ok1: "cache_ok g ctx c1"
          by blast
        from Cons.IH [OF ok1 run] obtain m2 where
          m2: "typedPropertiesLoopP m2 g ctx req keys
                      (acc @ [\<lparr>label = key, required = (key \<in> set req),
                               type = (case vts of [] \<Rightarrow> [] | t # _ \<Rightarrow> t)\<rparr>]) = Some r"
          and ok2: "cache_ok g ctx c'"
          by blast
        let ?m = "max m1 m2"
        have "valueTypesOf ?m g ctx i = Some vts"
          by (rule valueTypesOf_mono [OF m1]) simp
        moreover have "typedPropertiesLoopP ?m g ctx req keys
                      (acc @ [\<lparr>label = key, required = (key \<in> set req),
                               type = (case vts of [] \<Rightarrow> [] | t # _ \<Rightarrow> t)\<rparr>]) = Some r"
          by (rule typedPropertiesLoopP_mono [OF m2]) simp
        ultimately have "typedPropertiesLoopP ?m g ctx req (key # keys) acc = Some r"
          using Some ne False by simp
        with ok2 show ?thesis by blast
      qed
    qed
  qed
qed

lemma getTypedPropertiesFromId_sim:
  "sim g ctx (\<lambda>m. typedPropertiesOf m g ctx) (getTypedPropertiesFromId n g ctx)"
  unfolding sim_def
proof (intro allI impI)
  fix c i r c'
  assume ok: "cache_ok g ctx c"
    and run: "getTypedPropertiesFromId n g ctx c i = Some (r, c')"
  show "(\<exists>m. typedPropertiesOf m g ctx i = Some r) \<and> cache_ok g ctx c'"
  proof (cases "TypedPropertiesFromId c i")
    case (Some cached)
    with run have "r = cached" "c' = c" by (auto simp: getTypedPropertiesFromId_def)
    moreover from ok
    have "memo_ok (\<lambda>i r. \<exists>m. typedPropertiesOf m g ctx i = Some r) (TypedPropertiesFromId c)"
      by (simp add: cache_ok_def)
    from memo_okD [OF this Some] have "\<exists>m. typedPropertiesOf m g ctx i = Some cached" .
    ultimately show ?thesis using ok by simp
  next
    case None
    have "\<exists>c1 m. typedPropertiesOf m g ctx i = Some r \<and> cache_ok g ctx c1 \<and>
            c' = c1\<lparr>TypedPropertiesFromId := (TypedPropertiesFromId c1)(i \<mapsto> r)\<rparr>"
    proof (cases "isInternationalizationFromId ctx i")
      case True
      with run None have
        "r = map (\<lambda>code. \<lparr>label = code, required = False, type = ''string''\<rparr>) LANGUAGE_CODES"
        "c' = c\<lparr>TypedPropertiesFromId := (TypedPropertiesFromId c)(i \<mapsto> r)\<rparr>"
        by (auto simp: getTypedPropertiesFromId_def Let_def)
      moreover from True this(1) have "typedPropertiesOf 0 g ctx i = Some r"
        by (simp add: typedPropertiesOf_def)
      ultimately show ?thesis using ok by blast
    next
      case False
      let ?req = "(if getShortNameFromId ctx i \<noteq> []
                   then getRequiredPropertiesFromType (getShortNameFromId ctx i) else [])"
      from run None False obtain keys c1 c2 where
        call: "getPropertiesFromId n g ctx c i = Some (keys, c1)"
        and loop: "typedPropertiesLoop n g ctx ?req keys [] c1 = Some (r, c2)"
        and c': "c' = c2\<lparr>TypedPropertiesFromId := (TypedPropertiesFromId c2)(i \<mapsto> r)\<rparr>"
        by (auto simp: getTypedPropertiesFromId_def Let_def split: option.splits)
      from simD [OF getPropertiesFromId_sim ok call] obtain m1 where
        m1: "propertiesOf m1 g ctx i = Some keys" and ok1: "cache_ok g ctx c1"
        by blast
      from typedPropertiesLoop_sim [OF ok1 loop] obtain m2 where
        m2: "typedPropertiesLoopP m2 g ctx ?req keys [] = Some r" and ok2: "cache_ok g ctx c2"
        by blast
      let ?m = "max m1 m2"
      have "propertiesOf ?m g ctx i = Some keys"
        by (rule propertiesOf_mono [OF m1]) simp
      moreover have "typedPropertiesLoopP ?m g ctx ?req keys [] = Some r"
        by (rule typedPropertiesLoopP_mono [OF m2]) simp
      ultimately have "typedPropertiesOf ?m g ctx i = Some r"
        using False by (simp add: typedPropertiesOf_def)
      with ok2 c' show ?thesis by blast
    qed
    then obtain c1 m where
      p: "typedPropertiesOf m g ctx i = Some r" and ok1: "cache_ok g ctx c1"
      and c': "c' = c1\<lparr>TypedPropertiesFromId := (TypedPropertiesFromId c1)(i \<mapsto> r)\<rparr>"
      by auto
    from cache_ok_TypedPropertiesFromId [OF ok1 p] have "cache_ok g ctx c'"
      unfolding c' .
    with p show ?thesis by blast
  qed
qed


subsection \<open>More fuel never changes a result\<close>

lemma concatIf_mono:
  assumes "\<And>c i y. rec c i = Some y \<Longrightarrow> rec' c i = Some y"
  shows "concatIf b rec i xs c = Some y \<Longrightarrow> concatIf b rec' i xs c = Some y"
  using assms by (auto simp: concatIf_def split: option.splits if_splits)

lemma propertiesLoop_mono:
  assumes "\<And>c i y. rec c i = Some y \<Longrightarrow> rec' c i = Some y"
  shows "propertiesLoop rec ctx ident es acc c = Some y \<Longrightarrow>
         propertiesLoop rec' ctx ident es acc c = Some y"
  using assms
  by (induction es arbitrary: acc c) (auto split: option.splits if_splits prod.splits)

lemma typesLoop_mono:
  assumes "\<And>c i y. rec c i = Some y \<Longrightarrow> rec' c i = Some y"
  shows "typesLoop rec ident es acc c = Some y \<Longrightarrow> typesLoop rec' ident es acc c = Some y"
proof (induction es arbitrary: acc c)
  case Nil
  then show ?case by simp
next
  case (Cons edge rest)
  from Cons.prems obtain t1 c1 t2 c2 where
    a: "concatIf (NodeId (SourceNode edge) = ident \<and> Label edge = LABEL_RANGE)
             rec (NodeId (TargetNode edge)) acc c = Some (t1, c1)"
    and b: "concatIf (NodeId (TargetNode edge) = ident \<and> Label edge = LABEL_SUBCLASS)
                  rec (NodeId (SourceNode edge)) t1 c1 = Some (t2, c2)"
    and c: "typesLoop rec ident rest t2 c2 = Some y"
    by (auto split: option.splits)
  from concatIf_mono [OF assms a] concatIf_mono [OF assms b] Cons.IH [OF c]
  show ?case by simp
qed

lemma stringValuesLoop_mono:
  assumes "\<And>c i y. rec c i = Some y \<Longrightarrow> rec' c i = Some y"
  shows "stringValuesLoop rec ident es acc h c = Some y \<Longrightarrow>
         stringValuesLoop rec' ident es acc h c = Some y"
proof (induction es arbitrary: acc h c)
  case Nil
  then show ?case by simp
next
  case (Cons edge rest)
  let ?h = "(if NodeId (TargetNode edge) = ident \<and> Label edge = LABEL_DOMAIN then True else h)"
  from Cons.prems obtain t1 c1 t2 c2 t3 c3 where
    a: "concatIf (NodeId (SourceNode edge) = ident \<and> Label edge = LABEL_RANGE)
             rec (NodeId (TargetNode edge)) acc c = Some (t1, c1)"
    and b: "concatIf (NodeId (TargetNode edge) = ident \<and> Label edge = LABEL_SUBCLASS)
                  rec (NodeId (SourceNode edge)) t1 c1 = Some (t2, c2)"
    and c: "concatIf (NodeId (TargetNode edge) = ident \<and> Label edge = LABEL_TYPE)
                  rec (NodeId (SourceNode edge)) t2 c2 = Some (t3, c3)"
    and d: "stringValuesLoop rec ident rest t3 ?h c3 = Some y"
    by (auto simp: Let_def split: option.splits)
  from concatIf_mono [OF assms a] concatIf_mono [OF assms b] concatIf_mono [OF assms c]
    Cons.IH [OF d]
  show ?case by (simp add: Let_def)
qed

lemma getPropertiesFromId_mono:
  "getPropertiesFromId n g ctx c i = Some y \<Longrightarrow> n \<le> m \<Longrightarrow>
   getPropertiesFromId m g ctx c i = Some y"
proof (induction n arbitrary: m c i y)
  case 0
  then show ?case by simp
next
  case (Suc n)
  then obtain m' where m: "m = Suc m'" and le: "n \<le> m'"
    by (cases m) auto
  show ?case
  proof (cases "PropertiesFromId c i = None \<and> \<not> isInternationalizationFromId ctx i")
    case False
    with Suc.prems m show ?thesis by (auto split: option.splits)
  next
    case True
    with Suc.prems obtain z where
      ps: "propertiesLoop (getPropertiesFromId n g ctx) ctx i (Edges g) [] c = Some z"
      by (auto split: option.splits)
    have "propertiesLoop (getPropertiesFromId m' g ctx) ctx i (Edges g) [] c = Some z"
      by (rule propertiesLoop_mono [OF _ ps]) (rule Suc.IH [OF _ le])
    with True Suc.prems(1) ps m show ?thesis by simp
  qed
qed

lemma getTypesFromId_mono:
  "getTypesFromId n g ctx c i = Some y \<Longrightarrow> n \<le> m \<Longrightarrow> getTypesFromId m g ctx c i = Some y"
proof (induction n arbitrary: m c i y)
  case 0
  then show ?case by simp
next
  case (Suc n)
  then obtain m' where m: "m = Suc m'" and le: "n \<le> m'"
    by (cases m) auto
  show ?case
  proof (cases "TypesFromId c i")
    case (Some cached)
    with Suc.prems m show ?thesis by auto
  next
    case None
    with Suc.prems obtain z where
      ts: "typesLoop (getTypesFromId n g ctx) i (Edges g) [] c = Some z"
      by (auto split: option.splits)
    have "typesLoop (getTypesFromId m' g ctx) i (Edges g) [] c = Some z"
      by (rule typesLoop_mono [OF _ ts]) (rule Suc.IH [OF _ le])
    with None Suc.prems(1) ts m show ?thesis by simp
  qed
qed

lemma getStringValuesFromId_mono:
  "getStringValuesFromId n g ctx c i = Some y \<Longrightarrow> n \<le> m \<Longrightarrow>
   getStringValuesFromId m g ctx c i = Some y"
proof (induction n arbitrary: m c i y)
  case 0
  then show ?case by simp
next
  case (Suc n)
  then obtain m' where m: "m = Suc m'" and le: "n \<le> m'"
    by (cases m) auto
  show ?case
  proof (cases "StringValuesFromId c i")
    case (Some cached)
    with Suc.prems m show ?thesis by auto
  next
    case None
    with Suc.prems obtain z where
      vs: "stringValuesLoop (getStringValuesFromId n g ctx) i (Edges g) [] False c = Some z"
      by (auto split: option.splits)
    have "stringValuesLoop (getStringValuesFromId m' g ctx) i (Edges g) [] False c = Some z"
      by (rule stringValuesLoop_mono [OF _ vs]) (rule Suc.IH [OF _ le])
    with None Suc.prems(1) vs m show ?thesis by simp
  qed
qed

lemma getValueTypesFromId_mono:
  "getValueTypesFromId n g ctx c i = Some y \<Longrightarrow> n \<le> m \<Longrightarrow>
   getValueTypesFromId m g ctx c i = Some y"
  by (auto simp: getValueTypesFromId_def split: if_splits option.splits
           dest: getStringValuesFromId_mono)

lemma typedPropertiesLoop_mono:
  "typedPropertiesLoop n g ctx req keys acc c = Some y \<Longrightarrow> n \<le> m \<Longrightarrow>
   typedPropertiesLoop m g ctx req keys acc c = Some y"
proof (induction keys arbitrary: acc c)
  case Nil
  then show ?case by simp
next
  case (Cons key keys)
  show ?case
  proof (cases "getIdFromShortName ctx key")
    case None
    with Cons show ?thesis by simp
  next
    case (Some i)
    show ?thesis
    proof (cases "i = [] \<or> isArrayFromShortName key")
      case True
      with Some Cons show ?thesis by auto
    next
      case False
      with Some Cons.prems obtain z where
        v: "getValueTypesFromId n g ctx c i = Some z"
        by (auto split: option.splits)
      from getValueTypesFromId_mono [OF v Cons.prems(2)] v False Some Cons show ?thesis
        by (auto split: prod.splits)
    qed
  qed
qed

lemma getTypedPropertiesFromId_mono:
  assumes "getTypedPropertiesFromId n g ctx c i = Some y" "n \<le> m"
  shows "getTypedPropertiesFromId m g ctx c i = Some y"
proof (cases "TypedPropertiesFromId c i = None \<and> \<not> isInternationalizationFromId ctx i")
  case False
  with assms show ?thesis
    by (auto simp: getTypedPropertiesFromId_def split: option.splits)
next
  case True
  let ?req = "(if getShortNameFromId ctx i \<noteq> []
               then getRequiredPropertiesFromType (getShortNameFromId ctx i) else [])"
  from assms(1) True obtain keys c1 z where
    k: "getPropertiesFromId n g ctx c i = Some (keys, c1)"
    and l: "typedPropertiesLoop n g ctx ?req keys [] c1 = Some z"
    by (auto simp: getTypedPropertiesFromId_def Let_def split: option.splits)
  from getPropertiesFromId_mono [OF k assms(2)] typedPropertiesLoop_mono [OF l assms(2)]
    True assms(1) k l
  show ?thesis by (simp add: getTypedPropertiesFromId_def Let_def)
qed



subsection \<open>Termination on graphs without cycles\<close>

lemma returnsD: "returns f i \<Longrightarrow> \<exists>y. f c i = Some y"
  unfolding returns_def by auto

lemma returns_mono:
  assumes "\<And>c y. f c i = Some y \<Longrightarrow> f' c i = Some y" "returns f i"
  shows "returns f' i"
  unfolding returns_def
proof
  fix c
  from returnsD [OF assms(2)] obtain y where "f c i = Some y"
    by blast
  from assms(1) [OF this] show "f' c i \<noteq> None" by simp
qed

lemma fuel_mono_getPropertiesFromId: "fuel_mono (\<lambda>n. getPropertiesFromId n g ctx)"
  unfolding fuel_mono_def by (intro allI impI) (erule (1) getPropertiesFromId_mono)

lemma fuel_mono_getTypesFromId: "fuel_mono (\<lambda>n. getTypesFromId n g ctx)"
  unfolding fuel_mono_def by (intro allI impI) (erule (1) getTypesFromId_mono)

lemma fuel_mono_getStringValuesFromId: "fuel_mono (\<lambda>n. getStringValuesFromId n g ctx)"
  unfolding fuel_mono_def by (intro allI impI) (erule (1) getStringValuesFromId_mono)

lemma uniform_fuel:
  assumes fm: "fuel_mono f"
  shows "\<forall>i \<in> set ids. \<exists>n. returns (f n) i \<Longrightarrow> \<exists>N. \<forall>i \<in> set ids. returns (f N) i"
proof (induction ids)
  case Nil
  then show ?case by simp
next
  case (Cons a ids)
  then obtain N n where N: "\<forall>i \<in> set ids. returns (f N) i" and n: "returns (f n) a"
    by auto
  have mono: "f m c i = Some y" if "f n c i = Some y" "n \<le> m" for n m c i y
    by (rule fm [unfolded fuel_mono_def, rule_format, OF that])
  have "returns (f (max N n)) i" if "i \<in> set (a # ids)" for i
  proof (cases "i = a")
    case True
    have "f (max N n) c a = Some y" if "f n c a = Some y" for c y
      by (rule mono [OF that]) simp
    from returns_mono [of "f n" a "f (max N n)", OF this n] show ?thesis
      unfolding True .
  next
    case False
    with that N have r: "returns (f N) i" by simp
    have "f (max N n) c i = Some y" if "f N c i = Some y" for c y
      by (rule mono [OF that]) simp
    from returns_mono [of "f N" i "f (max N n)", OF this r] show ?thesis .
  qed
  then show ?case by blast
qed

lemma concatIf_returns:
  assumes "b \<longrightarrow> returns rec i"
  shows "\<exists>r c'. concatIf b rec i xs c = Some (r, c')"
proof (cases b)
  case True
  with assms have "returns rec i" by simp
  from returnsD [OF this] obtain y where "rec c i = Some y" by blast
  with True show ?thesis by (cases y) (simp add: concatIf_def)
next
  case False
  then show ?thesis by (simp add: concatIf_def)
qed

lemma propertiesLoop_returns:
  assumes "\<And>e. e \<in> set es \<Longrightarrow> NodeId (SourceNode e) = ident \<Longrightarrow> Label e = LABEL_SUBCLASS \<Longrightarrow>
             returns rec (NodeId (TargetNode e))"
  shows "\<exists>y. propertiesLoop rec ctx ident es acc c = Some y"
  using assms
proof (induction es arbitrary: acc c)
  case Nil
  then show ?case by simp
next
  case (Cons edge rest)
  have IH: "\<exists>y. propertiesLoop rec ctx ident rest acc' c' = Some y" for acc' c'
    by (rule Cons.IH) (rule Cons.prems, auto)
  show ?case
  proof (cases "NodeId (TargetNode edge) = ident \<and> Label edge = LABEL_DOMAIN")
    case True
    obtain name c1 where "getPropertyNameFromId ctx c (NodeId (SourceNode edge)) = (name, c1)"
      by (cases "getPropertyNameFromId ctx c (NodeId (SourceNode edge))")
    with IH [of "acc @ [name]" c1] show ?thesis
      unfolding propertiesLoop.simps if_P [OF True] by simp
  next
    case notdom: False
    show ?thesis
    proof (cases "NodeId (SourceNode edge) = ident \<and> Label edge = LABEL_SUBCLASS")
      case True
      with Cons.prems [of edge] have "returns rec (NodeId (TargetNode edge))" by simp
      from returnsD [OF this] obtain y where "rec c (NodeId (TargetNode edge)) = Some y"
        by blast
      with IH [of "acc @ fst y" "snd y"] show ?thesis
        unfolding propertiesLoop.simps if_not_P [OF notdom] if_P [OF True]
        by (cases y) simp
    next
      case False
      from IH [of acc c] show ?thesis
        unfolding propertiesLoop.simps if_not_P [OF notdom] if_not_P [OF False] .
    qed
  qed
qed

lemma typesLoop_returns:
  assumes "\<And>e. e \<in> set es \<Longrightarrow> NodeId (SourceNode e) = ident \<Longrightarrow> Label e = LABEL_RANGE \<Longrightarrow>
             returns rec (NodeId (TargetNode e))"
    and "\<And>e. e \<in> set es \<Longrightarrow> NodeId (TargetNode e) = ident \<Longrightarrow> Label e = LABEL_SUBCLASS \<Longrightarrow>
             returns rec (NodeId (SourceNode e))"
  shows "\<exists>y. typesLoop rec ident es acc c = Some y"
  using assms
proof (induction es arbitrary: acc c)
  case Nil
  then show ?case by simp
next
  case (Cons edge rest)
  have IH: "\<exists>y. typesLoop rec ident rest acc' c' = Some y" for acc' c'
  proof (rule Cons.IH)
    show "returns rec (NodeId (TargetNode e))"
      if "e \<in> set rest" "NodeId (SourceNode e) = ident" "Label e = LABEL_RANGE" for e
      using Cons.prems(1) [of e] that by simp
    show "returns rec (NodeId (SourceNode e))"
      if "e \<in> set rest" "NodeId (TargetNode e) = ident" "Label e = LABEL_SUBCLASS" for e
      using Cons.prems(2) [of e] that by simp
  qed
  obtain t1 c1 where
    a: "concatIf (NodeId (SourceNode edge) = ident \<and> Label edge = LABEL_RANGE)
             rec (NodeId (TargetNode edge)) acc c = Some (t1, c1)"
  proof -
    have "NodeId (SourceNode edge) = ident \<and> Label edge = LABEL_RANGE \<longrightarrow> returns rec (NodeId (TargetNode edge))"
      using Cons.prems(1) [of edge] by simp
    from concatIf_returns [OF this] show ?thesis
      using that by blast
  qed
  obtain t2 c2 where
    b: "concatIf (NodeId (TargetNode edge) = ident \<and> Label edge = LABEL_SUBCLASS)
                  rec (NodeId (SourceNode edge)) t1 c1 = Some (t2, c2)"
  proof -
    have "NodeId (TargetNode edge) = ident \<and> Label edge = LABEL_SUBCLASS \<longrightarrow> returns rec (NodeId (SourceNode edge))"
      using Cons.prems(2) [of edge] by simp
    from concatIf_returns [OF this] show ?thesis
      using that by blast
  qed
  from a b IH [of t2 c2] show ?case by simp
qed

lemma stringValuesLoop_returns:
  assumes "\<And>e. e \<in> set es \<Longrightarrow> NodeId (SourceNode e) = ident \<Longrightarrow> Label e = LABEL_RANGE \<Longrightarrow>
             returns rec (NodeId (TargetNode e))"
    and "\<And>e. e \<in> set es \<Longrightarrow> NodeId (TargetNode e) = ident \<Longrightarrow>
             Label e = LABEL_SUBCLASS \<or> Label e = LABEL_TYPE \<Longrightarrow>
             returns rec (NodeId (SourceNode e))"
  shows "\<exists>y. stringValuesLoop rec ident es acc h c = Some y"
  using assms
proof (induction es arbitrary: acc h c)
  case Nil
  then show ?case by simp
next
  case (Cons edge rest)
  have IH: "\<exists>y. stringValuesLoop rec ident rest acc' h' c' = Some y" for acc' h' c'
  proof (rule Cons.IH)
    show "returns rec (NodeId (TargetNode e))"
      if "e \<in> set rest" "NodeId (SourceNode e) = ident" "Label e = LABEL_RANGE" for e
      using Cons.prems(1) [of e] that by simp
    show "returns rec (NodeId (SourceNode e))"
      if "e \<in> set rest" "NodeId (TargetNode e) = ident"
        "Label e = LABEL_SUBCLASS \<or> Label e = LABEL_TYPE" for e
      using Cons.prems(2) [of e] that by simp
  qed
  obtain t1 c1 where
    a: "concatIf (NodeId (SourceNode edge) = ident \<and> Label edge = LABEL_RANGE)
             rec (NodeId (TargetNode edge)) acc c = Some (t1, c1)"
  proof -
    have "NodeId (SourceNode edge) = ident \<and> Label edge = LABEL_RANGE \<longrightarrow> returns rec (NodeId (TargetNode edge))"
      using Cons.prems(1) [of edge] by simp
    from concatIf_returns [OF this] show ?thesis
      using that by blast
  qed
  obtain t2 c2 where
    b: "concatIf (NodeId (TargetNode edge) = ident \<and> Label edge = LABEL_SUBCLASS)
                  rec (NodeId (SourceNode edge)) t1 c1 = Some (t2, c2)"
  proof -
    have "NodeId (TargetNode edge) = ident \<and> Label edge = LABEL_SUBCLASS \<longrightarrow> returns rec (NodeId (SourceNode edge))"
      using Cons.prems(2) [of edge] by simp
    from concatIf_returns [OF this] show ?thesis
      using that by blast
  qed
  obtain t3 c3 where
    c: "concatIf (NodeId (TargetNode edge) = ident \<and> Label edge = LABEL_TYPE)
                  rec (NodeId (SourceNode edge)) t2 c2 = Some (t3, c3)"
  proof -
    have "NodeId (TargetNode edge) = ident \<and> Label edge = LABEL_TYPE \<longrightarrow> returns rec (NodeId (SourceNode edge))"
      using Cons.prems(2) [of edge] by simp
    from concatIf_returns [OF this] show ?thesis
      using that by blast
  qed
  from a b c
    IH [of t3 "(if NodeId (TargetNode edge) = ident \<and> Label edge = LABEL_DOMAIN then True else h)" c3]
  show ?case by (simp add: Let_def)
qed

lemma callees_iff:
  "y \<in> set (map fst (filter (\<lambda>p. snd p = x) ps)) \<longleftrightarrow> (y, x) \<in> set ps"
  by force

lemma in_propertiesCalls:
  "e \<in> set (Edges g) \<Longrightarrow> Label e = LABEL_SUBCLASS \<Longrightarrow>
   (NodeId (TargetNode e), NodeId (SourceNode e)) \<in> set (propertiesCalls g)"
  by (auto simp: propertiesCalls_def)

lemma in_typesCalls:
  "e \<in> set (Edges g) \<Longrightarrow> Label e = LABEL_RANGE \<Longrightarrow>
   (NodeId (TargetNode e), NodeId (SourceNode e)) \<in> set (typesCalls g)"
  "e \<in> set (Edges g) \<Longrightarrow> Label e = LABEL_SUBCLASS \<Longrightarrow>
   (NodeId (SourceNode e), NodeId (TargetNode e)) \<in> set (typesCalls g)"
  by (auto simp: typesCalls_def)

lemma in_stringValuesCalls:
  "e \<in> set (Edges g) \<Longrightarrow> Label e = LABEL_RANGE \<Longrightarrow>
   (NodeId (TargetNode e), NodeId (SourceNode e)) \<in> set (stringValuesCalls g)"
  "e \<in> set (Edges g) \<Longrightarrow> Label e = LABEL_SUBCLASS \<or> Label e = LABEL_TYPE \<Longrightarrow>
   (NodeId (SourceNode e), NodeId (TargetNode e)) \<in> set (stringValuesCalls g)"
  by (auto simp: stringValuesCalls_def)

lemma getPropertiesFromId_returns:
  assumes "acyclic (set (propertiesCalls g))"
  shows "\<exists>n. returns (getPropertiesFromId n g ctx) i"
proof -
  have "wf (set (propertiesCalls g))"
    by (rule finite_acyclic_wf [OF _ assms]) simp
  then show ?thesis
  proof (induction i rule: wf_induct_rule)
    case (less x)
    let ?callees = "map fst (filter (\<lambda>p. snd p = x) (propertiesCalls g))"
    have "\<forall>i \<in> set ?callees. \<exists>n. returns (getPropertiesFromId n g ctx) i"
    proof
      fix i
      assume "i \<in> set ?callees"
      then have "(i, x) \<in> set (propertiesCalls g)"
        by (simp only: callees_iff)
      then show "\<exists>n. returns (getPropertiesFromId n g ctx) i"
        by (rule less)
    qed
    from uniform_fuel [where f = "\<lambda>n. getPropertiesFromId n g ctx", OF fuel_mono_getPropertiesFromId this]
    obtain N where N: "\<forall>i \<in> set ?callees. returns (getPropertiesFromId N g ctx) i"
      by blast
    have loop: "\<exists>y. propertiesLoop (getPropertiesFromId N g ctx) ctx x (Edges g) acc c = Some y"
      for acc c
    proof (rule propertiesLoop_returns)
      fix e
      assume "e \<in> set (Edges g)" "NodeId (SourceNode e) = x" "Label e = LABEL_SUBCLASS"
      then have "NodeId (TargetNode e) \<in> set ?callees"
        unfolding callees_iff using in_propertiesCalls [of e g] by simp
      with N show "returns (getPropertiesFromId N g ctx) (NodeId (TargetNode e))"
        by blast
    qed
    have "returns (getPropertiesFromId (Suc N) g ctx) x"
      unfolding returns_def
    proof
      fix c
      from loop [of "[]" c] obtain ps c1 where
        "propertiesLoop (getPropertiesFromId N g ctx) ctx x (Edges g) [] c = Some (ps, c1)"
        by fastforce
      then show "getPropertiesFromId (Suc N) g ctx c x \<noteq> None"
        by (simp add: Let_def split: option.splits)
    qed
    then show ?case ..
  qed
qed

lemma getTypesFromId_returns:
  assumes "acyclic (set (typesCalls g))"
  shows "\<exists>n. returns (getTypesFromId n g ctx) i"
proof -
  have "wf (set (typesCalls g))"
    by (rule finite_acyclic_wf [OF _ assms]) simp
  then show ?thesis
  proof (induction i rule: wf_induct_rule)
    case (less x)
    let ?callees = "map fst (filter (\<lambda>p. snd p = x) (typesCalls g))"
    have "\<forall>i \<in> set ?callees. \<exists>n. returns (getTypesFromId n g ctx) i"
    proof
      fix i
      assume "i \<in> set ?callees"
      then have "(i, x) \<in> set (typesCalls g)"
        by (simp only: callees_iff)
      then show "\<exists>n. returns (getTypesFromId n g ctx) i"
        by (rule less)
    qed
    from uniform_fuel [where f = "\<lambda>n. getTypesFromId n g ctx", OF fuel_mono_getTypesFromId this]
    obtain N where N: "\<forall>i \<in> set ?callees. returns (getTypesFromId N g ctx) i"
      by blast
    have loop: "\<exists>y. typesLoop (getTypesFromId N g ctx) x (Edges g) acc c = Some y" for acc c
    proof (rule typesLoop_returns)
      fix e
      assume "e \<in> set (Edges g)" "NodeId (SourceNode e) = x" "Label e = LABEL_RANGE"
      then have "NodeId (TargetNode e) \<in> set ?callees"
        unfolding callees_iff using in_typesCalls(1) [of e g] by simp
      with N show "returns (getTypesFromId N g ctx) (NodeId (TargetNode e))"
        by blast
    next
      fix e
      assume "e \<in> set (Edges g)" "NodeId (TargetNode e) = x" "Label e = LABEL_SUBCLASS"
      then have "NodeId (SourceNode e) \<in> set ?callees"
        unfolding callees_iff using in_typesCalls(2) [of e g] by simp
      with N show "returns (getTypesFromId N g ctx) (NodeId (SourceNode e))"
        by blast
    qed
    have "returns (getTypesFromId (Suc N) g ctx) x"
      unfolding returns_def
    proof
      fix c
      from loop [of "[]" c] obtain ts c1 where
        "typesLoop (getTypesFromId N g ctx) x (Edges g) [] c = Some (ts, c1)"
        by fastforce
      then show "getTypesFromId (Suc N) g ctx c x \<noteq> None"
        by (cases "TypesFromId c x";
            cases "getShortNameFromLabel ctx c1 (getLabelFromId ctx x)";
            cases "fst (getShortNameFromLabel ctx c1 (getLabelFromId ctx x))")
           (simp_all add: Let_def)
    qed
    then show ?case ..
  qed
qed

lemma getStringValuesFromId_returns:
  assumes "acyclic (set (stringValuesCalls g))"
  shows "\<exists>n. returns (getStringValuesFromId n g ctx) i"
proof -
  have "wf (set (stringValuesCalls g))"
    by (rule finite_acyclic_wf [OF _ assms]) simp
  then show ?thesis
  proof (induction i rule: wf_induct_rule)
    case (less x)
    let ?callees = "map fst (filter (\<lambda>p. snd p = x) (stringValuesCalls g))"
    have "\<forall>i \<in> set ?callees. \<exists>n. returns (getStringValuesFromId n g ctx) i"
    proof
      fix i
      assume "i \<in> set ?callees"
      then have "(i, x) \<in> set (stringValuesCalls g)"
        by (simp only: callees_iff)
      then show "\<exists>n. returns (getStringValuesFromId n g ctx) i"
        by (rule less)
    qed
    from uniform_fuel [where f = "\<lambda>n. getStringValuesFromId n g ctx",
        OF fuel_mono_getStringValuesFromId this]
    obtain N where N: "\<forall>i \<in> set ?callees. returns (getStringValuesFromId N g ctx) i"
      by blast
    have loop: "\<exists>y. stringValuesLoop (getStringValuesFromId N g ctx) x (Edges g) acc h c = Some y"
      for acc h c
    proof (rule stringValuesLoop_returns)
      fix e
      assume "e \<in> set (Edges g)" "NodeId (SourceNode e) = x" "Label e = LABEL_RANGE"
      then have "NodeId (TargetNode e) \<in> set ?callees"
        unfolding callees_iff using in_stringValuesCalls(1) [of e g] by simp
      with N show "returns (getStringValuesFromId N g ctx) (NodeId (TargetNode e))"
        by blast
    next
      fix e
      assume "e \<in> set (Edges g)" "NodeId (TargetNode e) = x"
        "Label e = LABEL_SUBCLASS \<or> Label e = LABEL_TYPE"
      then have "NodeId (SourceNode e) \<in> set ?callees"
        unfolding callees_iff using in_stringValuesCalls(2) [of e g] by simp
      with N show "returns (getStringValuesFromId N g ctx) (NodeId (SourceNode e))"
        by blast
    qed
    have "returns (getStringValuesFromId (Suc N) g ctx) x"
      unfolding returns_def
    proof
      fix c
      from loop [of "[]" False c] obtain vs h c1 where
        "stringValuesLoop (getStringValuesFromId N g ctx) x (Edges g) [] False c =
           Some (vs, h, c1)"
        by fastforce
      then show "getStringValuesFromId (Suc N) g ctx c x \<noteq> None"
        by (cases "StringValuesFromId c x") (simp_all add: Let_def)
    qed
    then show ?case ..
  qed
qed

subsection \<open>Sorting, repetition and uniqueness of results\<close>

lemmas example_defs = exampleGraph_def exampleContext_def mkEdge_def
  LABEL_DOMAIN_def LABEL_SUBCLASS_def LABEL_RANGE_def LABEL_TYPE_def


lemma set_uniq_acc: "set (uniq_acc acc xs) = set acc \<union> set xs"
  by (induction xs arbitrary: acc) auto

lemma distinct_uniq_acc: "distinct acc \<Longrightarrow> distinct (uniq_acc acc xs)"
  by (induction xs arbitrary: acc) auto

lemma set_uniq [simp]: "set (uniq xs) = set xs"
  by (simp add: uniq_def set_uniq_acc)

lemma distinct_uniq [simp]: "distinct (uniq xs)"
  by (simp add: uniq_def distinct_uniq_acc)

lemma propertiesOf_sorted:
  "propertiesOf m g ctx i = Some r \<Longrightarrow> sorted r \<and> distinct r"
  by (cases m) (auto split: option.splits)

lemma typesOf_sorted:
  "typesOf m g ctx i = Some r \<Longrightarrow> sorted r \<and> distinct r"
  by (cases m) (auto split: option.splits)

lemma propertiesOf_unique:
  assumes "propertiesOf m g ctx i = Some r" "propertiesOf m' g ctx i = Some r'"
  shows "r' = r"
  using propertiesOf_mono [OF assms(1), of "max m m'"] propertiesOf_mono [OF assms(2), of "max m m'"]
  by simp

lemma typesOf_unique:
  assumes "typesOf m g ctx i = Some r" "typesOf m' g ctx i = Some r'"
  shows "r' = r"
  using typesOf_mono [OF assms(1), of "max m m'"] typesOf_mono [OF assms(2), of "max m m'"]
  by simp

lemma stringValuesOf_unique:
  assumes "stringValuesOf m g ctx i = Some r" "stringValuesOf m' g ctx i = Some r'"
  shows "r' = r"
  using stringValuesOf_mono [OF assms(1), of "max m m'"]
    stringValuesOf_mono [OF assms(2), of "max m m'"]
  by simp

lemma getPropertiesFromId_repeat:
  "getPropertiesFromId n g ctx c i = Some (r, c') \<Longrightarrow>
   getPropertiesFromId (Suc k) g ctx c' i = Some (r, c')"
  by (cases n) (auto simp: Let_def split: option.splits if_splits)

lemma getTypesFromId_repeat:
  "getTypesFromId n g ctx c i = Some (r, c') \<Longrightarrow>
   getTypesFromId (Suc k) g ctx c' i = Some (r, c')"
  by (cases n) (auto simp: Let_def split: option.splits if_splits prod.splits)

lemma getStringValuesFromId_repeat:
  "getStringValuesFromId n g ctx c i = Some (r, c') \<Longrightarrow>
   getStringValuesFromId (Suc k) g ctx c' i = Some (r, c')"
  by (cases n) (auto simp: Let_def split: option.splits if_splits)

lemma example_properties:
  "map_option fst (getPropertiesFromId (Suc (Suc 0)) exampleGraph exampleContext emptyCache
     ''dt:Telemetry'') = Some [''comment'', ''name'']"
  by (simp add: example_defs emptyCache_def isInternationalizationFromId_def vocab_def testAt_def
       getPropertyNameFromId_def uniq_def Let_def)

lemma example_types:
  "map_option fst (getTypesFromId (Suc (Suc (Suc 0))) exampleGraph exampleContext emptyCache
     ''dt:schema'') = Some [''Boolean'']"
  by (simp add: example_defs emptyCache_def concatIf_def vocab_def getLabelFromId_def
       startsWith_def substr_def getShortNameFromLabel_def uniq_def Let_def)

lemma example_stringValues:
  "map_option fst (getStringValuesFromId (Suc (Suc (Suc 0))) exampleGraph exampleContext
     emptyCache ''dt:unit'') = Some [''fahrenheit'', ''celsius'', ''fahrenheit'']"
  by (simp add: example_defs emptyCache_def concatIf_def vocab_def getShortNameFromId_def
       startsWith_def substr_def testAt_def Let_def)

subsection \<open>The language codes\<close>

lemma not_distinct_LANGUAGE_CODES: "\<not> distinct LANGUAGE_CODES"
proof -
  have "LANGUAGE_CODES =
          take 20 LANGUAGE_CODES @ ''az-AZ'' # ''az-AZ'' # drop 22 LANGUAGE_CODES"
    by (simp add: LANGUAGE_CODES_def)
  then obtain xs ys where eq: "LANGUAGE_CODES = xs @ ''az-AZ'' # ''az-AZ'' # ys"
    by blast
  show ?thesis unfolding eq by simp
qed

lemma propertiesOf_internationalization:
  "propertiesOf m g ctx i = Some r \<Longrightarrow> isInternationalizationFromId ctx i \<Longrightarrow>
   r = sort (uniq LANGUAGE_CODES)"
  by (cases m) auto

lemma typedPropertiesOf_internationalization:
  "typedPropertiesOf m g ctx i = Some r \<Longrightarrow> isInternationalizationFromId ctx i \<Longrightarrow>
   r = map (\<lambda>code. \<lparr>label = code, required = False, type = ''string''\<rparr>) LANGUAGE_CODES"
  by (simp add: typedPropertiesOf_def)

lemma example_internationalization:
  "isInternationalizationFromId exampleContext ''dt:displayName''"
  by (simp add: exampleContext_def isInternationalizationFromId_def vocab_def testAt_def)

subsection \<open>Properties along subclass edges\<close>

lemma propertiesLoopP_contains:
  "propertiesLoopP rec ctx ident es acc = Some r \<Longrightarrow>
     set acc \<subseteq> set r \<and>
     (\<forall>e \<in> set es. NodeId (TargetNode e) = ident \<and> Label e = LABEL_DOMAIN \<longrightarrow>
        propertyNameOf ctx (NodeId (SourceNode e)) \<in> set r) \<and>
     (\<forall>e \<in> set es. NodeId (SourceNode e) = ident \<and> Label e = LABEL_SUBCLASS \<longrightarrow>
        (\<exists>super. rec (NodeId (TargetNode e)) = Some super \<and> set super \<subseteq> set r))"
proof (induction es arbitrary: acc)
  case Nil
  then show ?case by simp
next
  case (Cons edge rest)
  show ?case
  proof (cases "NodeId (TargetNode edge) = ident \<and> Label edge = LABEL_DOMAIN")
    case True
    from Cons.prems
    have "propertiesLoopP rec ctx ident rest
            (acc @ [propertyNameOf ctx (NodeId (SourceNode edge))]) = Some r"
      unfolding propertiesLoopP.simps if_P [OF True] .
    from Cons.IH [OF this] True show ?thesis by auto
  next
    case notdom: False
    show ?thesis
    proof (cases "NodeId (SourceNode edge) = ident \<and> Label edge = LABEL_SUBCLASS")
      case True
      from Cons.prems obtain super where
        s: "rec (NodeId (TargetNode edge)) = Some super"
        and run: "propertiesLoopP rec ctx ident rest (acc @ super) = Some r"
        unfolding propertiesLoopP.simps if_not_P [OF notdom] if_P [OF True]
        by (auto split: option.splits)
      from Cons.IH [OF run] s notdom show ?thesis by auto
    next
      case False
      from Cons.prems have "propertiesLoopP rec ctx ident rest acc = Some r"
        unfolding propertiesLoopP.simps if_not_P [OF notdom] if_not_P [OF False] .
      from Cons.IH [OF this] notdom False show ?thesis by auto
    qed
  qed
qed

lemma propertiesOf_superclass:
  assumes "propertiesOf m g ctx a = Some ra" "\<not> isInternationalizationFromId ctx a"
    "subClassOf g a b"
  shows "\<exists>k rb. propertiesOf k g ctx b = Some rb \<and> set rb \<subseteq> set ra"
proof (cases m)
  case 0
  with assms(1) show ?thesis by simp
next
  case (Suc k)
  with assms(1,2) obtain ps where
    loop: "propertiesLoopP (propertiesOf k g ctx) ctx a (Edges g) [] = Some ps"
    and ra: "ra = sort (uniq ps)"
    by (auto split: option.splits)
  from assms(3) obtain e where
    e: "e \<in> set (Edges g)" "NodeId (SourceNode e) = a" "NodeId (TargetNode e) = b"
       "Label e = LABEL_SUBCLASS"
    by (auto simp: subClassOf_def)
  from propertiesLoopP_contains [OF loop] e obtain super where
    "propertiesOf k g ctx b = Some super" "set super \<subseteq> set ps"
    by blast
  with ra show ?thesis by auto
qed

lemma propertiesOf_domain:
  assumes "propertiesOf m g ctx a = Some ra" "\<not> isInternationalizationFromId ctx a"
  shows "set (domainProperties g ctx a) \<subseteq> set ra"
proof (cases m)
  case 0
  with assms(1) show ?thesis by simp
next
  case (Suc k)
  with assms(1,2) obtain ps where
    loop: "propertiesLoopP (propertiesOf k g ctx) ctx a (Edges g) [] = Some ps"
    and ra: "ra = sort (uniq ps)"
    by (auto split: option.splits)
  from propertiesLoopP_contains [OF loop] ra show ?thesis
    by (auto simp: domainProperties_def)
qed

lemma example_Sensor:
  "map_option fst (getPropertiesFromId (Suc (Suc (Suc 0))) exampleGraph exampleContext emptyCache
     ''dt:Sensor'') = Some [''comment'', ''name'']"
  by (simp add: example_defs emptyCache_def isInternationalizationFromId_def vocab_def testAt_def
       getPropertyNameFromId_def uniq_def Let_def)

lemma example_subClassOf:
  "subClassOf exampleGraph ''dt:Sensor'' ''dt:Telemetry''"
  "subClassOf exampleGraph ''dt:displayName'' ''dt:Telemetry''"
  "subClassOf exampleGraph ''dt:Telemetry'' ''dt:Entity''"
  by (simp_all add: subClassOf_def example_defs)

lemma example_not_internationalization:
  "\<not> isInternationalizationFromId exampleContext ''dt:Sensor''"
  "\<not> isInternationalizationFromId exampleContext ''dt:Telemetry''"
  "\<not> isInternationalizationFromId exampleContext ''dt:Entity''"
  by (simp_all add: exampleContext_def isInternationalizationFromId_def vocab_def testAt_def)

lemma example_domainProperties:
  "domainProperties exampleGraph exampleContext ''dt:Entity'' = [''comment'']"
  by (simp add: domainProperties_def example_defs propertyNameOf_def vocab_def)

subsection \<open>Value types in the example graph\<close>

lemma example_count:
  "map_option fst (getValueTypesFromId (Suc (Suc 0)) exampleGraph exampleContext emptyCache
     ''dt:count'') = Some [''int'']"
  by (simp add: example_defs emptyCache_def concatIf_def vocab_def getShortNameFromId_def
       startsWith_def substr_def splitPop_def testAt_def getValueTypesFromId_def valueTypeOf_def
       Let_def)

lemma example_ratio:
  "map_option fst (getValueTypesFromId (Suc (Suc 0)) exampleGraph exampleContext emptyCache
     ''dt:ratio'') = Some [''float'']"
  by (simp add: example_defs emptyCache_def concatIf_def vocab_def getShortNameFromId_def
       startsWith_def substr_def splitPop_def testAt_def getValueTypesFromId_def valueTypeOf_def
       Let_def)

lemma example_contents:
  "map_option fst (getValueTypesFromId (Suc (Suc 0)) exampleGraph contentsContext emptyCache
     ''dt:ratio'') = Some [''float'']"
  by (simp add: example_defs contentsContext_def emptyCache_def concatIf_def vocab_def
       getShortNameFromId_def startsWith_def substr_def splitPop_def testAt_def
       getValueTypesFromId_def valueTypeOf_def Let_def)

subsection \<open>One amount of fuel for every id\<close>

lemma returnsI: "(\<And>c. \<exists>y. f c i = Some y) \<Longrightarrow> returns f i"
  unfolding returns_def by auto

lemma getPropertiesFromId_returns_fresh:
  assumes "i \<notin> set (nodeIds g)"
  shows "returns (getPropertiesFromId (Suc 0) g ctx) i"
proof (rule returnsI)
  fix c
  have "\<exists>y. propertiesLoop (getPropertiesFromId 0 g ctx) ctx i (Edges g) [] c = Some y"
  proof (rule propertiesLoop_returns)
    fix e
    assume "e \<in> set (Edges g)" "NodeId (SourceNode e) = i"
    with assms have False by (auto simp: nodeIds_def)
    then show "returns (getPropertiesFromId 0 g ctx) (NodeId (TargetNode e))" ..
  qed
  then obtain ps c1 where
    "propertiesLoop (getPropertiesFromId 0 g ctx) ctx i (Edges g) [] c = Some (ps, c1)"
    by fastforce
  then show "\<exists>y. getPropertiesFromId (Suc 0) g ctx c i = Some y"
    by (cases "PropertiesFromId c i"; cases "isInternationalizationFromId ctx i")
       (simp_all add: Let_def)
qed

lemma getTypesFromId_returns_fresh:
  assumes "i \<notin> set (nodeIds g)"
  shows "returns (getTypesFromId (Suc 0) g ctx) i"
proof (rule returnsI)
  fix c
  have "\<exists>y. typesLoop (getTypesFromId 0 g ctx) i (Edges g) [] c = Some y"
  proof (rule typesLoop_returns)
    fix e
    assume "e \<in> set (Edges g)" "NodeId (SourceNode e) = i"
    with assms have False by (auto simp: nodeIds_def)
    then show "returns (getTypesFromId 0 g ctx) (NodeId (TargetNode e))" ..
  next
    fix e
    assume "e \<in> set (Edges g)" "NodeId (TargetNode e) = i"
    with assms have False by (auto simp: nodeIds_def)
    then show "returns (getTypesFromId 0 g ctx) (NodeId (SourceNode e))" ..
  qed
  then obtain ts c1 where
    "typesLoop (getTypesFromId 0 g ctx) i (Edges g) [] c = Some (ts, c1)"
    by fastforce
  then show "\<exists>y. getTypesFromId (Suc 0) g ctx c i = Some y"
    by (cases "TypesFromId c i";
        cases "getShortNameFromLabel ctx c1 (getLabelFromId ctx i)";
        cases "fst (getShortNameFromLabel ctx c1 (getLabelFromId ctx i))")
       (simp_all add: Let_def)
qed

lemma getStringValuesFromId_returns_fresh:
  assumes "i \<notin> set (nodeIds g)"
  shows "returns (getStringValuesFromId (Suc 0) g ctx) i"
proof (rule returnsI)
  fix c
  have "\<exists>y. stringValuesLoop (getStringValuesFromId 0 g ctx) i (Edges g) [] False c = Some y"
  proof (rule stringValuesLoop_returns)
    fix e
    assume "e \<in> set (Edges g)" "NodeId (SourceNode e) = i"
    with assms have False by (auto simp: nodeIds_def)
    then show "returns (getStringValuesFromId 0 g ctx) (NodeId (TargetNode e))" ..
  next
    fix e
    assume "e \<in> set (Edges g)" "NodeId (TargetNode e) = i"
    with assms have False by (auto simp: nodeIds_def)
    then show "returns (getStringValuesFromId 0 g ctx) (NodeId (SourceNode e))" ..
  qed
  then obtain vs h c1 where
    "stringValuesLoop (getStringValuesFromId 0 g ctx) i (Edges g) [] False c = Some (vs, h, c1)"
    by fastforce
  then show "\<exists>y. getStringValuesFromId (Suc 0) g ctx c i = Some y"
    by (cases "StringValuesFromId c i") (simp_all add: Let_def)
qed

lemma uniform_fuel_all:
  assumes fm: "fuel_mono f"
    and each: "\<And>i. \<exists>n. returns (f n) i"
    and fresh: "\<And>i. i \<notin> set ids \<Longrightarrow> returns (f (Suc 0)) i"
  shows "\<exists>N. \<forall>i. returns (f N) i"
proof -
  from each have "\<forall>i \<in> set ids. \<exists>n. returns (f n) i" by blast
  from uniform_fuel [OF fm this] obtain N where N: "\<forall>i \<in> set ids. returns (f N) i"
    by blast
  have mono: "f m c i = Some y" if "f n c i = Some y" "n \<le> m" for n m c i y
    by (rule fm [unfolded fuel_mono_def, rule_format, OF that])
  have "returns (f (Suc N)) i" for i
  proof (cases "i \<in> set ids")
    case True
    with N have r: "returns (f N) i" by blast
    have "f (Suc N) c i = Some y" if "f N c i = Some y" for c y
      by (rule mono [OF that]) simp
    from returns_mono [of "f N" i "f (Suc N)", OF this r] show ?thesis .
  next
    case False
    from fresh [OF this] have r: "returns (f (Suc 0)) i" .
    have "f (Suc N) c i = Some y" if "f (Suc 0) c i = Some y" for c y
      by (rule mono [OF that]) simp
    from returns_mono [of "f (Suc 0)" i "f (Suc N)", OF this r] show ?thesis .
  qed
  then show ?thesis by blast
qed

lemma allReturn_acyclic:
  assumes "acyclic (set (propertiesCalls g))" "acyclic (set (typesCalls g))"
    "acyclic (set (stringValuesCalls g))"
  shows "\<exists>N. allReturn N g ctx"
proof -
  have "\<exists>N. \<forall>i. returns (getPropertiesFromId N g ctx) i"
  proof (rule uniform_fuel_all [of "\<lambda>n. getPropertiesFromId n g ctx" "nodeIds g"])
    show "fuel_mono (\<lambda>n. getPropertiesFromId n g ctx)"
      by (rule fuel_mono_getPropertiesFromId)
    show "\<exists>n. returns (getPropertiesFromId n g ctx) i" for i
      by (rule getPropertiesFromId_returns [OF assms(1)])
    show "returns (getPropertiesFromId (Suc 0) g ctx) i" if "i \<notin> set (nodeIds g)" for i
      by (rule getPropertiesFromId_returns_fresh [OF that])
  qed
  then obtain N1 where N1: "\<forall>i. returns (getPropertiesFromId N1 g ctx) i" by blast
  have "\<exists>N. \<forall>i. returns (getTypesFromId N g ctx) i"
  proof (rule uniform_fuel_all [of "\<lambda>n. getTypesFromId n g ctx" "nodeIds g"])
    show "fuel_mono (\<lambda>n. getTypesFromId n g ctx)"
      by (rule fuel_mono_getTypesFromId)
    show "\<exists>n. returns (getTypesFromId n g ctx) i" for i
      by (rule getTypesFromId_returns [OF assms(2)])
    show "returns (getTypesFromId (Suc 0) g ctx) i" if "i \<notin> set (nodeIds g)" for i
      by (rule getTypesFromId_returns_fresh [OF that])
  qed
  then obtain N2 where N2: "\<forall>i. returns (getTypesFromId N2 g ctx) i" by blast
  have "\<exists>N. \<forall>i. returns (getStringValuesFromId N g ctx) i"
  proof (rule uniform_fuel_all [of "\<lambda>n. getStringValuesFromId n g ctx" "nodeIds g"])
    show "fuel_mono (\<lambda>n. getStringValuesFromId n g ctx)"
      by (rule fuel_mono_getStringValuesFromId)
    show "\<exists>n. returns (getStringValuesFromId n g ctx) i" for i
      by (rule getStringValuesFromId_returns [OF assms(3)])
    show "returns (getStringValuesFromId (Suc 0) g ctx) i" if "i \<notin> set (nodeIds g)" for i
      by (rule getStringValuesFromId_returns_fresh [OF that])
  qed
  then obtain N3 where N3: "\<forall>i. returns (getStringValuesFromId N3 g ctx) i" by blast
  let ?N = "max N1 (max N2 N3)"
  have "returns (getPropertiesFromId ?N g ctx) i" for i
  proof (rule returns_mono [of "getPropertiesFromId N1 g ctx"])
    show "getPropertiesFromId ?N g ctx c i = Some y"
      if "getPropertiesFromId N1 g ctx c i = Some y" for c y
      by (rule getPropertiesFromId_mono [OF that]) simp
    show "returns (getPropertiesFromId N1 g ctx) i"
      using N1 by blast
  qed
  moreover have "returns (getTypesFromId ?N g ctx) i" for i
  proof (rule returns_mono [of "getTypesFromId N2 g ctx"])
    show "getTypesFromId ?N g ctx c i = Some y"
      if "getTypesFromId N2 g ctx c i = Some y" for c y
      by (rule getTypesFromId_mono [OF that]) simp
    show "returns (getTypesFromId N2 g ctx) i"
      using N2 by blast
  qed
  moreover have "returns (getStringValuesFromId ?N g ctx) i" for i
  proof (rule returns_mono [of "getStringValuesFromId N3 g ctx"])
    show "getStringValuesFromId ?N g ctx c i = Some y"
      if "getStringValuesFromId N3 g ctx c i = Some y" for c y
      by (rule getStringValuesFromId_mono [OF that]) simp
    show "returns (getStringValuesFromId N3 g ctx) i"
      using N3 by blast
  qed
  ultimately have "allReturn ?N g ctx"
    unfolding allReturn_def by blast
  then show ?thesis ..
qed


subsection \<open>With enough fuel the diagnostics return\<close>

lemma allReturnD:
  assumes "allReturn n g ctx"
  shows "\<exists>r c'. getPropertiesFromId n g ctx c i = Some (r, c')"
    and "\<exists>r c'. getTypesFromId n g ctx c i = Some (r, c')"
    and "\<exists>r c'. getStringValuesFromId n g ctx c i = Some (r, c')"
proof -
  from assms have p: "returns (getPropertiesFromId n g ctx) i"
    and t: "returns (getTypesFromId n g ctx) i"
    and v: "returns (getStringValuesFromId n g ctx) i"
    by (simp_all add: allReturn_def)
  from returnsD [OF p, of c] show "\<exists>r c'. getPropertiesFromId n g ctx c i = Some (r, c')"
    by fastforce
  from returnsD [OF t, of c] show "\<exists>r c'. getTypesFromId n g ctx c i = Some (r, c')"
    by fastforce
  from returnsD [OF v, of c] show "\<exists>r c'. getStringValuesFromId n g ctx c i = Some (r, c')"
    by fastforce
qed

lemma getValueTypesFromId_returns:
  assumes "allReturn n g ctx"
  shows "\<exists>r c'. getValueTypesFromId n g ctx c i = Some (r, c')"
proof -
  from allReturnD(3) [OF assms, of c i] obtain vs c1 where
    "getStringValuesFromId n g ctx c i = Some (vs, c1)" by blast
  then show ?thesis
    by (cases "ValueTypesFromId c i") (simp_all add: getValueTypesFromId_def Let_def)
qed

lemma getStringValuesFromShortName_returns:
  assumes "allReturn n g ctx"
  shows "\<exists>r c'. getStringValuesFromShortName n g ctx c key = Some (r, c')"
proof (cases "getIdFromShortName ctx key")
  case None
  then show ?thesis by (simp add: getStringValuesFromShortName_def)
next
  case (Some i)
  from allReturnD(3) [OF assms, of c i] obtain vs c1 where
    "getStringValuesFromId n g ctx c i = Some (vs, c1)" by blast
  with Some show ?thesis by (simp add: getStringValuesFromShortName_def)
qed

lemma typedPropertiesLoop_returns:
  assumes "allReturn n g ctx"
  shows "\<exists>r c'. typedPropertiesLoop n g ctx req keys acc c = Some (r, c')"
proof (induction keys arbitrary: acc c)
  case Nil
  show ?case by simp
next
  case (Cons key keys)
  show ?case
  proof (cases "getIdFromShortName ctx key")
    case None
    with Cons [of acc c] show ?thesis by simp
  next
    case (Some i)
    from getValueTypesFromId_returns [OF assms, of c i] obtain vts c1 where
      v: "getValueTypesFromId n g ctx c i = Some (vts, c1)" by blast
    show ?thesis
    proof (cases "i = []")
      case True
      with Some Cons [of acc c] show ?thesis by simp
    next
      case ne: False
      show ?thesis
      proof (cases "isArrayFromShortName key")
        case True
        with Some ne
          Cons [of "acc @ [\<lparr>label = key, required = (key \<in> set req), type = ''array''\<rparr>]" c]
        show ?thesis by simp
      next
        case False
        with Some ne v
          Cons [of "acc @ [\<lparr>label = key, required = (key \<in> set req),
                           type = (case vts of [] \<Rightarrow> [] | t # _ \<Rightarrow> t)\<rparr>]" c1]
        show ?thesis by simp
      qed
    qed
  qed
qed

lemma getTypedPropertiesFromId_returns:
  assumes "allReturn n g ctx"
  shows "\<exists>r c'. getTypedPropertiesFromId n g ctx c i = Some (r, c')"
proof -
  from allReturnD(1) [OF assms, of c i] obtain keys c1 where
    k: "getPropertiesFromId n g ctx c i = Some (keys, c1)" by blast
  from typedPropertiesLoop_returns [OF assms] obtain r c2 where
    "typedPropertiesLoop n g ctx
       (if getShortNameFromId ctx i \<noteq> []
        then getRequiredPropertiesFromType (getShortNameFromId ctx i) else []) keys [] c1 =
     Some (r, c2)" by blast
  with k show ?thesis
    by (cases "TypedPropertiesFromId c i"; cases "isInternationalizationFromId ctx i")
       (simp_all add: getTypedPropertiesFromId_def Let_def)
qed

lemma getTypedPropertiesFromType_returns:
  assumes "allReturn n g ctx"
  shows "\<exists>r c'. getTypedPropertiesFromType n g ctx c ty = Some (r, c')"
  using getTypedPropertiesFromId_returns [OF assms, of c "getIdFromType ctx ty"]
  by (simp add: getTypedPropertiesFromType_def Let_def)

lemma completes_returnD [simp]: "completes (returnD x c)"
  by (simp add: completes_def returnD_def)

lemma completes_throwD [simp]: "completes throwD"
  by (simp add: completes_def throwD_def)

lemma completes_liftT: "\<exists>r c'. t = Some (r, c') \<Longrightarrow> completes (liftT t)"
  by (auto simp: completes_def liftT_def)

lemma completes_bindD:
  "completes r \<Longrightarrow> (\<And>x c. completes (f x c)) \<Longrightarrow> completes (bindD r f)"
  by (auto simp: completes_def bindD_def split: option.splits sum.splits)

lemma positionTypes_completes:
  assumes "allReturn n g ctx"
  shows "completes (positionTypes n K g ctx document jsonKey c)"
  unfolding positionTypes_def
  by (auto split: option.splits
      intro!: completes_bindD completes_liftT allReturnD(2) [OF assms])

lemma getType_completes:
  assumes "allReturn n g ctx"
  shows "completes (getType n K g ctx document jsonValue jsonKey c)"
  unfolding getType_def
  by (auto split: option.splits list.splits
      intro!: completes_bindD positionTypes_completes [OF assms])

lemma getInvalidTypeIssues_completes:
  assumes "allReturn n g ctx"
  shows "completes (getInvalidTypeIssues n K g ctx document jsonValue jsonKey c)"
  unfolding getInvalidTypeIssues_def
  by (auto simp: Let_def split: option.splits TypeResult.splits prod.splits
      intro!: completes_bindD positionTypes_completes [OF assms] getType_completes [OF assms])

lemma getStringIssues_completes:
  assumes "allReturn n g ctx"
  shows "completes (getStringIssues n K g ctx document jsonValue isInlineInterface jsonKey c)"
  unfolding getStringIssues_def
  by (auto split: option.splits if_splits
      intro!: completes_bindD completes_liftT getStringValuesFromShortName_returns [OF assms])

lemma typedPropertyLabels_completes:
  assumes "allReturn n g ctx"
  shows "completes (typedPropertyLabels n g ctx types props c)"
proof (induction types arbitrary: props c)
  case Nil
  show ?case by simp
next
  case (Cons ty types)
  show ?case
    unfolding typedPropertyLabels.simps
    by (intro completes_bindD completes_liftT getTypedPropertiesFromType_returns [OF assms]
          Cons)
qed

lemma getUnexpectedPropertiesIssues_completes:
  assumes "allReturn n g ctx"
  shows "completes (getUnexpectedPropertiesIssues n g ctx jsonValue ty c)"
  unfolding getUnexpectedPropertiesIssues_def
  by (cases ty)
     (auto simp del: typedPropertyLabels.simps
        intro!: completes_bindD typedPropertyLabels_completes [OF assms])

lemma objectIssuesBeforeLoop_completes:
  assumes "allReturn n g ctx"
  shows "completes (objectIssuesBeforeLoop n K g ctx document jsonValue isInlineInterface
                      jsonKey c)"
  unfolding objectIssuesBeforeLoop_def
  by (auto split: option.splits
      intro!: completes_bindD getInvalidTypeIssues_completes [OF assms]
        getType_completes [OF assms] getUnexpectedPropertiesIssues_completes [OF assms])

lemma rawValueTypesOf_completes:
  assumes "allReturn n g ctx"
  shows "completes (rawValueTypesOf n g ctx jsonKey isArrayElement c)"
  unfolding rawValueTypesOf_def
  by (auto split: option.splits
      intro!: completes_bindD completes_liftT getValueTypesFromId_returns [OF assms])


lemma first_pass_completes:
  shows "allReturn n g ctx \<Longrightarrow>
         completes (getJsonValueIssues n K g ctx document jsonValue isInlineInterface jsonKey c)"
    and "allReturn n g ctx \<Longrightarrow>
         completes (getArrayIssues n K g ctx document elems isInlineInterface jsonKey issues c)"
    and "allReturn n g ctx \<Longrightarrow>
         completes (getObjectIssues n K g ctx document jsonValue isInlineInterface jsonKey c)"
    and "allReturn n g ctx \<Longrightarrow>
         completes (objectPropertiesIssues n K g ctx document props isInlineInterface jsonKey
                      issues c)"
proof (induction n K g ctx document jsonValue isInlineInterface jsonKey c
         and n K g ctx document elems isInlineInterface jsonKey issues c
         and n K g ctx document jsonValue isInlineInterface jsonKey c
         and n K g ctx document props isInlineInterface jsonKey issues c
       rule: getJsonValueIssues_getArrayIssues_getObjectIssues_objectPropertiesIssues.induct)
  case (1 n K g ctx document jsonValue isInlineInterface jsonKey c)
  show ?case
  proof (cases jsonValue)
    case (ObjectValue sp fr ps)
    from "1.IH"(1) [OF ObjectValue "1.prems"] ObjectValue show ?thesis
      by (subst getJsonValueIssues.simps) simp
  next
    case (ArrayValue sp fr elems)
    from "1.IH"(2) [OF ArrayValue "1.prems"] ArrayValue show ?thesis
      by (subst getJsonValueIssues.simps) (auto intro!: completes_bindD)
  next
    case (StringValue sp fr)
    with getStringIssues_completes [OF "1.prems"] show ?thesis
      by (subst getJsonValueIssues.simps) simp
  next
    case (NumberValue sp fr)
    then show ?thesis by (subst getJsonValueIssues.simps) simp
  next
    case (BooleanValue sp fr)
    then show ?thesis by (subst getJsonValueIssues.simps) simp
  next
    case (NullValue sp fr)
    then show ?thesis by (subst getJsonValueIssues.simps) simp
  qed
next
  case (2 n K g ctx document isInlineInterface jsonKey issues c)
  show ?case by simp
next
  case (3 n K g ctx document elementValue rest isInlineInterface jsonKey issues c)
  show ?case
    unfolding getArrayIssues.simps
    by (intro completes_bindD "3.IH"(1) [OF "3.prems"] "3.IH"(2) [OF "3.prems"])
next
  case (4 n K g ctx document jsonValue isInlineInterface jsonKey c)
  show ?case
    unfolding getObjectIssues.simps
  proof (rule completes_bindD [OF objectIssuesBeforeLoop_completes [OF "4.prems"]])
    fix r c1
    show "completes
            (case r of
               Inl issues \<Rightarrow> returnD issues c1
             | Inr issues \<Rightarrow>
                 objectPropertiesIssues n K g ctx document (properties jsonValue)
                   isInlineInterface jsonKey issues c1)"
    proof (cases r)
      case (Inl issues)
      then show ?thesis by simp
    next
      case (Inr issues)
      from "4.IH" [OF Inr "4.prems"] Inr show ?thesis by simp
    qed
  qed
next
  case (5 n K g ctx document isInlineInterface jsonKey issues c)
  show ?case by simp
next
  case (6 n K g ctx document property rest isInlineInterface jsonKey issues c)
  show ?case
    unfolding objectPropertiesIssues.simps Let_def
    by (intro completes_bindD "6.IH"(1) [OF refl refl "6.prems"]
          "6.IH"(2) [OF refl refl "6.prems"])
qed

lemma second_pass_completes:
  shows "allReturn n g ctx \<Longrightarrow>
         completes (getTypeIssues n g ctx document jsonValue jsonKey isArrayElement c)"
    and "allReturn n g ctx \<Longrightarrow>
         completes (typeIssuesElements n g ctx document elems jsonKey issues c)"
    and "allReturn n g ctx \<Longrightarrow>
         completes (typeIssuesProperties n g ctx document props issues c)"
proof (induction n g ctx document jsonValue jsonKey isArrayElement c
         and n g ctx document elems jsonKey issues c
         and n g ctx document props issues c
       rule: getTypeIssues_typeIssuesElements_typeIssuesProperties.induct)
  case (1 n g ctx document jsonValue jsonKey isArrayElement c)
  show ?case
    unfolding getTypeIssues.simps [of n g ctx document jsonValue]
  proof (rule completes_bindD [OF rawValueTypesOf_completes [OF "1.prems"]])
    fix raw c1
    show "completes
            (case raw of
               None \<Rightarrow> returnD [] c1
             | Some rawValueTypes \<Rightarrow>
                 (case jsonValue of
                    ObjectValue sp fr props \<Rightarrow> typeIssuesProperties n g ctx document props [] c1
                  | ArrayValue sp fr elems \<Rightarrow>
                      typeIssuesElements n g ctx document elems jsonKey [] c1
                  | NumberValue sp fr \<Rightarrow>
                      if ''float'' \<notin> set rawValueTypes \<and> ''double'' \<notin> set rawValueTypes \<and>
                         notInteger (Number fr)
                      then returnD [mkIssue sp (''Invalid value. Valid value is '' @
                                                join '', '' rawValueTypes @ ''.'')] c1
                      else returnD [] c1
                  | _ \<Rightarrow> returnD [] c1))"
    proof (cases raw)
      case None
      then show ?thesis by simp
    next
      case (Some rawValueTypes)
      show ?thesis
      proof (cases jsonValue)
        case (ObjectValue sp fr ps)
        from "1.IH"(1) [OF Some ObjectValue "1.prems"] Some ObjectValue show ?thesis by simp
      next
        case (ArrayValue sp fr elems)
        from "1.IH"(2) [OF Some ArrayValue "1.prems"] Some ArrayValue show ?thesis by simp
      qed (simp_all add: Some)
    qed
  qed
next
  case (2 n g ctx document jsonKey issues c)
  show ?case by simp
next
  case (3 n g ctx document element rest jsonKey issues c)
  show ?case
    unfolding typeIssuesElements.simps
    by (intro completes_bindD "3.IH"(1) [OF "3.prems"] "3.IH"(2) [OF "3.prems"])
next
  case (4 n g ctx document issues c)
  show ?case by simp
next
  case (5 n g ctx document property rest issues c)
  show ?case
    unfolding typeIssuesProperties.simps
    by (intro completes_bindD "5.IH"(1) [OF "5.prems"] "5.IH"(2) [OF "5.prems"])
qed

lemma getIssues_completes:
  assumes "allReturn n g ctx"
  shows "completes (getIssues n K parse g ctx document c)"
  unfolding getIssues_def
  by (auto split: option.splits
      intro!: completes_bindD first_pass_completes(1) [OF assms]
        second_pass_completes(1) [OF assms])

lemma cyclicGraph_diverges:
  "PropertiesFromId c ''dt:Loop'' = None \<Longrightarrow>
   getPropertiesFromId n cyclicGraph exampleContext c ''dt:Loop'' = None"
proof (induction n arbitrary: c)
  case 0
  show ?case by simp
next
  case (Suc n)
  have i: "\<not> isInternationalizationFromId exampleContext ''dt:Loop''"
    by (simp add: isInternationalizationFromId_def exampleContext_def)
  from Suc.IH [OF Suc.prems] Suc.prems i show ?case
    by (simp add: cyclicGraph_def mkEdge_def LABEL_SUBCLASS_def LABEL_DOMAIN_def)
qed

subsection \<open>Which array a repeated call returns\<close>

text \<open>
  A second call of \<open>getStringValuesFromId\<close> returns the array that the first call stored.
  That is the array the first call returned, except after the branch for objects, where
  the first call returned the empty array allocated next.
\<close>

lemma getStringValuesFromIdRef_repeat:
  assumes "getStringValuesFromIdRef n g ctx s i = Some (r, s1)"
  shows "\<exists>r'. StringValuesFromIdRefs s1 i = Some r' \<and>
              getStringValuesFromIdRef (Suc k) g ctx s1 i = Some (r', s1) \<and>
              (r' = r \<or> StringValuesFromIdRefs s i = None \<and> r = Suc r' \<and>
                 arrayAt s1 r = [] \<and> arrayAt s1 r' = [])"
proof (cases n)
  case 0
  with assms show ?thesis by simp
next
  case (Suc m)
  note run = assms [unfolded Suc]
  show ?thesis
  proof (cases "StringValuesFromIdRefs s i")
    case (Some cached)
    with run show ?thesis by simp
  next
    case None
    obtain v0 s0 where a: "newArray [] s = (v0, s0)" by (cases "newArray [] s")
    show ?thesis
    proof (cases "stringValuesLoopRef (getStringValuesFromIdRef m g ctx) i (Edges g) v0 False s0")
      case none: None
      with run None a show ?thesis by simp
    next
      case (Some res)
      then obtain vs hp s' where
        l: "stringValuesLoopRef (getStringValuesFromIdRef m g ctx) i (Edges g) v0 False s0 =
              Some (vs, hp, s')"
        by (cases res) auto
      show ?thesis
      proof (cases "arrayAt s' vs = [] \<and> hp")
        case True
        with run None a l have rs: "r = Suc (length (Arrays s'))"
          "s1 = s'\<lparr>StringValuesFromIdRefs :=
                    (StringValuesFromIdRefs s')(i \<mapsto> length (Arrays s')),
                  Arrays := Arrays s' @ [[], []]\<rparr>"
          by (auto simp: newArray_def cacheStringValues_def)
        show ?thesis
          unfolding rs
          by (rule exI [of _ "length (Arrays s')"]) (simp add: None arrayAt_def nth_append)
      next
        case False
        with run None a l show ?thesis
          by (auto simp: cacheStringValues_def Let_def split: if_splits)
      qed
    qed
  qed
qed

section \<open>Properties of the parser\<close>

text \<open>
  C6. \<open>getRequiredPropertiesFromType('Interface')\<close> is exactly
  \<open>['@id', '@type', '@context']\<close>, and for every type name that is not one of the case
  labels of the static table the result is the empty list.
\<close>

theorem getRequiredPropertiesFromType_table:
  "getRequiredPropertiesFromType ''Interface'' = [''@id'', ''@type'', ''@context''] \<and>
   (\<forall>t. t \<notin> set requiredPropertiesTypes \<longrightarrow> getRequiredPropertiesFromType t = [])"
  by (simp add: getRequiredPropertiesFromType_def requiredPropertiesTypes_def)

theorem getRequiredPropertiesFromType_table_witness:
  "''Sensor'' \<notin> set requiredPropertiesTypes \<and> getRequiredPropertiesFromType ''Sensor'' = [] \<and>
   getRequiredPropertiesFromType ''Interface'' = [''@id'', ''@type'', ''@context'']"
  using getRequiredPropertiesFromType_table
  by (simp add: requiredPropertiesTypes_def)

text \<open>
  C1, as amended. On a parser whose memo tables agree with the graph and the context
  (as they do from construction on, whatever queries were made), a call of
  \<open>getPropertiesFromId\<close>, \<open>getTypesFromId\<close> or \<open>getStringValuesFromId\<close> that returns a
  list returns the same list when it is repeated, and any call with the same id on any
  such parser returns that list too. The lists of \<open>getPropertiesFromId\<close> and
  \<open>getTypesFromId\<close> are sorted and free of duplicates.
\<close>

theorem memoized_queries_deterministic:
  assumes "cache_ok g ctx c"
  shows "(getPropertiesFromId n g ctx c i = Some (rp, cp) \<longrightarrow>
            sorted rp \<and> distinct rp \<and>
            getPropertiesFromId (Suc k) g ctx cp i = Some (rp, cp) \<and>
            (\<forall>d m r' d'. cache_ok g ctx d \<longrightarrow>
               getPropertiesFromId m g ctx d i = Some (r', d') \<longrightarrow> r' = rp)) \<and>
         (getTypesFromId n g ctx c i = Some (rt, ct) \<longrightarrow>
            sorted rt \<and> distinct rt \<and>
            getTypesFromId (Suc k) g ctx ct i = Some (rt, ct) \<and>
            (\<forall>d m r' d'. cache_ok g ctx d \<longrightarrow>
               getTypesFromId m g ctx d i = Some (r', d') \<longrightarrow> r' = rt)) \<and>
         (getStringValuesFromId n g ctx c i = Some (rv, cv) \<longrightarrow>
            getStringValuesFromId (Suc k) g ctx cv i = Some (rv, cv) \<and>
            (\<forall>d m r' d'. cache_ok g ctx d \<longrightarrow>
               getStringValuesFromId m g ctx d i = Some (r', d') \<longrightarrow> r' = rv))"
proof (intro conjI impI allI)
  assume run: "getPropertiesFromId n g ctx c i = Some (rp, cp)"
  from simD [OF getPropertiesFromId_sim assms run] obtain m where
    m: "propertiesOf m g ctx i = Some rp" by blast
  from propertiesOf_sorted [OF m] show "sorted rp" "distinct rp" by simp_all
  from getPropertiesFromId_repeat [OF run]
  show "getPropertiesFromId (Suc k) g ctx cp i = Some (rp, cp)" .
  fix d m' r' d'
  assume "cache_ok g ctx d" "getPropertiesFromId m' g ctx d i = Some (r', d')"
  from simD [OF getPropertiesFromId_sim this] obtain k' where
    "propertiesOf k' g ctx i = Some r'" by blast
  from propertiesOf_unique [OF m this] show "r' = rp" .
next
  assume run: "getTypesFromId n g ctx c i = Some (rt, ct)"
  from simD [OF getTypesFromId_sim assms run] obtain m where
    m: "typesOf m g ctx i = Some rt" by blast
  from typesOf_sorted [OF m] show "sorted rt" "distinct rt" by simp_all
  from getTypesFromId_repeat [OF run]
  show "getTypesFromId (Suc k) g ctx ct i = Some (rt, ct)" .
  fix d m' r' d'
  assume "cache_ok g ctx d" "getTypesFromId m' g ctx d i = Some (r', d')"
  from simD [OF getTypesFromId_sim this] obtain k' where
    "typesOf k' g ctx i = Some r'" by blast
  from typesOf_unique [OF m this] show "r' = rt" .
next
  assume run: "getStringValuesFromId n g ctx c i = Some (rv, cv)"
  from simD [OF getStringValuesFromId_sim assms run] obtain m where
    m: "stringValuesOf m g ctx i = Some rv" by blast
  from getStringValuesFromId_repeat [OF run]
  show "getStringValuesFromId (Suc k) g ctx cv i = Some (rv, cv)" .
  fix d m' r' d'
  assume "cache_ok g ctx d" "getStringValuesFromId m' g ctx d i = Some (r', d')"
  from simD [OF getStringValuesFromId_sim this] obtain k' where
    "stringValuesOf k' g ctx i = Some r'" by blast
  from stringValuesOf_unique [OF m this] show "r' = rv" .
qed

theorem memoized_queries_deterministic_witness:
  "cache_ok exampleGraph exampleContext emptyCache \<and>
   (\<exists>cp. getPropertiesFromId (Suc (Suc 0)) exampleGraph exampleContext emptyCache
           ''dt:Telemetry'' = Some ([''comment'', ''name''], cp) \<and>
         getPropertiesFromId (Suc 0) exampleGraph exampleContext cp ''dt:Telemetry'' =
           Some ([''comment'', ''name''], cp)) \<and>
   (\<exists>ct. getTypesFromId (Suc (Suc (Suc 0))) exampleGraph exampleContext emptyCache
           ''dt:schema'' = Some ([''Boolean''], ct) \<and>
         getTypesFromId (Suc 0) exampleGraph exampleContext ct ''dt:schema'' =
           Some ([''Boolean''], ct)) \<and>
   (\<exists>cv. getStringValuesFromId (Suc (Suc (Suc 0))) exampleGraph exampleContext emptyCache
           ''dt:unit'' = Some ([''fahrenheit'', ''celsius'', ''fahrenheit''], cv) \<and>
         getStringValuesFromId (Suc 0) exampleGraph exampleContext cv ''dt:unit'' =
           Some ([''fahrenheit'', ''celsius'', ''fahrenheit''], cv))"
proof -
  have ok: "cache_ok exampleGraph exampleContext emptyCache"
    by simp
  from example_properties obtain cp where
    p: "getPropertiesFromId (Suc (Suc 0)) exampleGraph exampleContext emptyCache
          ''dt:Telemetry'' = Some ([''comment'', ''name''], cp)"
    by (auto simp del: getPropertiesFromId.simps)
  from example_types obtain ct where
    t: "getTypesFromId (Suc (Suc (Suc 0))) exampleGraph exampleContext emptyCache
          ''dt:schema'' = Some ([''Boolean''], ct)"
    by (auto simp del: getTypesFromId.simps)
  from example_stringValues obtain cv where
    v: "getStringValuesFromId (Suc (Suc (Suc 0))) exampleGraph exampleContext emptyCache
          ''dt:unit'' = Some ([''fahrenheit'', ''celsius'', ''fahrenheit''], cv)"
    by (auto simp del: getStringValuesFromId.simps)
  note det = memoized_queries_deterministic [OF ok, where k = 0]
  from det [THEN conjunct1, rule_format, OF p]
       det [THEN conjunct2, THEN conjunct1, rule_format, OF t]
       det [THEN conjunct2, THEN conjunct2, rule_format, OF v] ok p t v
  show ?thesis by blast
qed

text \<open>
  C1 as first stated fails for \<open>getStringValuesFromId\<close>, which neither sorts its list
  nor removes repetitions: here a unit with two values, one of them reachable along two
  edges.
\<close>

theorem stringValues_unsorted_counterexample:
  "map_option fst (getStringValuesFromId (Suc (Suc (Suc 0))) exampleGraph exampleContext
     emptyCache ''dt:unit'') = Some [''fahrenheit'', ''celsius'', ''fahrenheit''] \<and>
   \<not> sorted [''fahrenheit'', ''celsius'', ''fahrenheit''] \<and>
   \<not> distinct [''fahrenheit'', ''celsius'', ''fahrenheit'']"
proof (intro conjI)
  show "map_option fst (getStringValuesFromId (Suc (Suc (Suc 0))) exampleGraph exampleContext
     emptyCache ''dt:unit'') = Some [''fahrenheit'', ''celsius'', ''fahrenheit'']"
    by (rule example_stringValues)
  show "\<not> sorted [''fahrenheit'', ''celsius'', ''fahrenheit'']" by simp
  show "\<not> distinct [''fahrenheit'', ''celsius'', ''fahrenheit'']" by simp
qed







text \<open>
  C7. On an array of two objects that both have a string property \<open>name\<close> with the
  value \<open>temp\<close>, the check of the element names gives exactly one issue, and its span
  is the span of the name's value in the second object.
\<close>

theorem duplicate_name_second_occurrence:
  assumes "getPropertyValue (ObjectValue s1 f1 ps1) ''name'' = Some (StringValue n1 ''temp'')"
    and "getPropertyValue (ObjectValue s2 f2 ps2) ''name'' = Some (StringValue n2 ''temp'')"
  shows "getArrayElementNameIssues
           (ArrayValue sp fr [ObjectValue s1 f1 ps1, ObjectValue s2 f2 ps2]) isInlineInterface =
         [\<lparr>startIndex = startIndex n2, endIndex = endIndex n2,
           message = ''temp has already been assigned to another item.''\<rparr>]"
  using assms by (simp add: getArrayElementNameIssues_def mkIssue_def)

theorem duplicate_name_second_occurrence_witness:
  "getPropertyValue
     (ObjectValue (exampleSpan 1 17) ''(object)''
        [((exampleSpan 2 7, ''name''), StringValue (exampleSpan 10 15) ''temp'')])
     ''name'' = Some (StringValue (exampleSpan 10 15) ''temp'') \<and>
   getPropertyValue
     (ObjectValue (exampleSpan 20 36) ''(object)''
        [((exampleSpan 21 26, ''name''), StringValue (exampleSpan 29 34) ''temp'')])
     ''name'' = Some (StringValue (exampleSpan 29 34) ''temp'') \<and>
   getArrayElementNameIssues
     (ArrayValue (exampleSpan 0 37) ''(array)''
        [ObjectValue (exampleSpan 1 17) ''(object)''
           [((exampleSpan 2 7, ''name''), StringValue (exampleSpan 10 15) ''temp'')],
         ObjectValue (exampleSpan 20 36) ''(object)''
           [((exampleSpan 21 26, ''name''), StringValue (exampleSpan 29 34) ''temp'')]])
     False =
   [\<lparr>startIndex = 29, endIndex = 34,
     message = ''temp has already been assigned to another item.''\<rparr>]"
proof -
  have a: "getPropertyValue
     (ObjectValue (exampleSpan 1 17) ''(object)''
        [((exampleSpan 2 7, ''name''), StringValue (exampleSpan 10 15) ''temp'')])
     ''name'' = Some (StringValue (exampleSpan 10 15) ''temp'')"
    by (simp add: getPropertyValue_def)
  have b: "getPropertyValue
     (ObjectValue (exampleSpan 20 36) ''(object)''
        [((exampleSpan 21 26, ''name''), StringValue (exampleSpan 29 34) ''temp'')])
     ''name'' = Some (StringValue (exampleSpan 29 34) ''temp'')"
    by (simp add: getPropertyValue_def)
  from duplicate_name_second_occurrence [OF a b, of "exampleSpan 0 37" "''(array)''" False] a b
  show ?thesis by (simp add: exampleSpan_def)
qed

text \<open>
  C8, as amended. Let the type pass come to a number with the literal \<open>3.5\<close> under a
  key that is not empty, has an id, and is not read as an array: it is none of
  \<open>contents\<close>, \<open>schemas\<close>, \<open>fields\<close>, \<open>enumValues\<close>, \<open>implements\<close>, or the number is an
  element of the array under such a key. Where the value types resolved for the key are
  exactly \<open>['int']\<close> the pass gives exactly one issue, on the span of the number; where
  they are \<open>['float']\<close> it gives none.
\<close>

theorem number_integrality:
  assumes "key \<noteq> []" "isArrayElement \<or> \<not> isArrayFromShortName key"
    and "getIdFromShortName ctx key = Some ident" "ident \<noteq> []"
  shows "(getValueTypesFromId n g ctx c ident = Some ([''int''], c') \<longrightarrow>
            getTypeIssues n g ctx document (NumberValue sp ''3.5'') (Some key) isArrayElement c =
              Some (Inr ([\<lparr>startIndex = startIndex sp, endIndex = endIndex sp,
                           message = ''Invalid value. Valid value is int.''\<rparr>], c'))) \<and>
         (getValueTypesFromId n g ctx c ident = Some ([''float''], c') \<longrightarrow>
            getTypeIssues n g ctx document (NumberValue sp ''3.5'') (Some key) isArrayElement c =
              Some (Inr ([], c')))"
proof -
  have num: "notInteger (Number ''3.5'')"
    by (simp add: Number_def parseDigits_def parseExponent_def isDigit_def Let_def)
  from assms show ?thesis
    by (auto simp: getTypeIssues.simps rawValueTypesOf_def bindD_def returnD_def liftT_def
          mkIssue_def num)
qed

theorem number_integrality_witness:
  "getIdFromShortName exampleContext ''count'' = Some ''dt:count'' \<and>
   getIdFromShortName exampleContext ''ratio'' = Some ''dt:ratio'' \<and>
   \<not> isArrayFromShortName ''count'' \<and> \<not> isArrayFromShortName ''ratio'' \<and>
   (\<exists>c'. getValueTypesFromId (Suc (Suc 0)) exampleGraph exampleContext emptyCache ''dt:count'' =
           Some ([''int''], c') \<and>
         getTypeIssues (Suc (Suc 0)) exampleGraph exampleContext exampleDocument
           (NumberValue (exampleSpan 9 11) ''3.5'') (Some ''count'') False emptyCache =
           Some (Inr ([\<lparr>startIndex = 9, endIndex = 11,
                        message = ''Invalid value. Valid value is int.''\<rparr>], c'))) \<and>
   (\<exists>c'. getValueTypesFromId (Suc (Suc 0)) exampleGraph exampleContext emptyCache ''dt:ratio'' =
           Some ([''float''], c') \<and>
         getTypeIssues (Suc (Suc 0)) exampleGraph exampleContext exampleDocument
           (NumberValue (exampleSpan 9 11) ''3.5'') (Some ''ratio'') False emptyCache =
           Some (Inr ([], c')))"
proof -
  have ids: "getIdFromShortName exampleContext ''count'' = Some ''dt:count''"
    "getIdFromShortName exampleContext ''ratio'' = Some ''dt:ratio''"
    by (simp_all add: getIdFromShortName_def exampleContext_def vocab_def)
  have arr: "\<not> isArrayFromShortName ''count''" "\<not> isArrayFromShortName ''ratio''"
    by (simp_all add: isArrayFromShortName_def)
  from example_count obtain c1 where
    c1: "getValueTypesFromId (Suc (Suc 0)) exampleGraph exampleContext emptyCache ''dt:count'' =
           Some ([''int''], c1)"
    by auto
  from example_ratio obtain c2 where
    c2: "getValueTypesFromId (Suc (Suc 0)) exampleGraph exampleContext emptyCache ''dt:ratio'' =
           Some ([''float''], c2)"
    by auto
  have "getTypeIssues (Suc (Suc 0)) exampleGraph exampleContext exampleDocument
           (NumberValue (exampleSpan 9 11) ''3.5'') (Some ''count'') False emptyCache =
           Some (Inr ([\<lparr>startIndex = 9, endIndex = 11,
                        message = ''Invalid value. Valid value is int.''\<rparr>], c1))"
    using number_integrality [of "''count''" False exampleContext "''dt:count''",
        THEN conjunct1, rule_format, OF _ _ ids(1) _ c1, of exampleDocument "exampleSpan 9 11"]
      arr
    by (simp add: exampleSpan_def)
  moreover
  have "getTypeIssues (Suc (Suc 0)) exampleGraph exampleContext exampleDocument
           (NumberValue (exampleSpan 9 11) ''3.5'') (Some ''ratio'') False emptyCache =
           Some (Inr ([], c2))"
    using number_integrality [of "''ratio''" False exampleContext "''dt:ratio''",
        THEN conjunct2, rule_format, OF _ _ ids(2) _ c2, of exampleDocument "exampleSpan 9 11"]
      arr
    by simp
  ultimately show ?thesis using ids arr c1 c2 by blast
qed

text \<open>
  C8 as first stated fails under a key that is read as an array. For such a key the
  pass does not ask the parser for the value types: it takes them to be \<open>['array']\<close>,
  so a number that is not an integer is reported whatever the key resolves to. Here
  \<open>contents\<close> resolves to \<open>['float']\<close> and \<open>3.5\<close> is reported.
\<close>

theorem number_integrality_counterexample:
  "getIdFromShortName contentsContext ''contents'' = Some ''dt:ratio'' \<and>
   map_option fst (getValueTypesFromId (Suc (Suc 0)) exampleGraph contentsContext emptyCache
     ''dt:ratio'') = Some [''float''] \<and>
   getTypeIssues (Suc (Suc 0)) exampleGraph contentsContext exampleDocument
     (NumberValue (exampleSpan 9 11) ''3.5'') (Some ''contents'') False emptyCache =
     Some (Inr ([\<lparr>startIndex = 9, endIndex = 11,
                  message = ''Invalid value. Valid value is array.''\<rparr>], emptyCache))"
proof (intro conjI)
  show "getIdFromShortName contentsContext ''contents'' = Some ''dt:ratio''"
    by (simp add: getIdFromShortName_def contentsContext_def vocab_def)
  show "map_option fst (getValueTypesFromId (Suc (Suc 0)) exampleGraph contentsContext emptyCache
     ''dt:ratio'') = Some [''float'']"
    by (rule example_contents)
  have num: "notInteger (Number ''3.5'')"
    by (simp add: Number_def parseDigits_def parseExponent_def isDigit_def Let_def)
  show "getTypeIssues (Suc (Suc 0)) exampleGraph contentsContext exampleDocument
     (NumberValue (exampleSpan 9 11) ''3.5'') (Some ''contents'') False emptyCache =
     Some (Inr ([\<lparr>startIndex = 9, endIndex = 11,
                  message = ''Invalid value. Valid value is array.''\<rparr>], emptyCache))"
    by (simp add: getTypeIssues.simps rawValueTypesOf_def isArrayFromShortName_def bindD_def
          returnD_def mkIssue_def exampleSpan_def num)
qed

text \<open>
  C9. For a document whose text fails to parse, \<open>getIssues\<close> returns the empty list:
  it runs no check (it needs no fuel and leaves the memo tables as they were) and
  throws nothing.
\<close>

theorem getIssues_malformed:
  assumes "failsToParse parse (getText document)"
  shows "getIssues n K parse g ctx document c = Some (Inr ([], c))"
  using assms
  by (auto simp: failsToParse_def getIssues_def returnD_def split: option.splits)

theorem getIssues_malformed_witness:
  "failsToParse exampleParse (getText (exampleDocument\<lparr>getText := ''{''\<rparr>)) \<and>
   getIssues 0 exampleConstants exampleParse exampleGraph exampleContext
     (exampleDocument\<lparr>getText := ''{''\<rparr>) emptyCache =
   Some (Inr ([], emptyCache))"
proof -
  have f: "failsToParse exampleParse (getText (exampleDocument\<lparr>getText := ''{''\<rparr>))"
    by (simp add: failsToParse_def exampleParse_def)
  from getIssues_malformed [OF f] f show ?thesis by blast
qed

text \<open>
  C10. Whatever the context, the graph and the state of the memo tables,
  \<open>getStringValuesFromShortName\<close> returns exactly \<open>['XMLSchema#string']\<close> when the short
  name resolves to the id \<open>http://azureiot.com/v1/classes/InterfaceInstance/schema\<close>, and
  does so before any traversal: the result needs no fuel and leaves the tables as they
  were. The string check then tests such a value against the pattern and length rules
  of its key and not against a list of values. For a short name that the context does
  not map, \<open>getStringValuesFromShortName\<close> returns the empty list.
\<close>

theorem getStringValuesFromShortName_schema:
  "(getIdFromShortName ctx shortName =
      Some ''http://azureiot.com/v1/classes/InterfaceInstance/schema'' \<longrightarrow>
    getStringValuesFromShortName n g ctx c shortName = Some ([''XMLSchema#string''], c) \<and>
    (shortName \<noteq> [] \<and> shortName \<noteq> ''@context'' \<and> shortName \<noteq> ''@id'' \<longrightarrow>
     getStringIssues n K g ctx document jsonValue isInlineInterface (Some shortName) c =
       Some (Inr (getStringPatternIssues document jsonValue shortName, c)))) \<and>
   (map_of ctx shortName = None \<longrightarrow>
    getStringValuesFromShortName n g ctx c shortName = Some ([], c))"
  by (simp add: getStringValuesFromShortName_def getIdFromShortName_def getStringIssues_def
        bindD_def liftT_def returnD_def)

theorem getStringValuesFromShortName_schema_witness:
  "getIdFromShortName schemaContext ''schema'' =
     Some ''http://azureiot.com/v1/classes/InterfaceInstance/schema'' \<and>
   getStringValuesFromShortName 0 exampleGraph schemaContext emptyCache ''schema'' =
     Some ([''XMLSchema#string''], emptyCache) \<and>
   getStringIssues 0 exampleConstants exampleGraph schemaContext exampleDocument
     (StringValue (exampleSpan 11 21) ''urn:a:b:1'') False (Some ''schema'') emptyCache =
     Some (Inr ([], emptyCache)) \<and>
   map_of schemaContext ''unit'' = None \<and>
   getStringValuesFromShortName 0 exampleGraph schemaContext emptyCache ''unit'' =
     Some ([], emptyCache)"
proof -
  have a: "getIdFromShortName schemaContext ''schema'' =
             Some ''http://azureiot.com/v1/classes/InterfaceInstance/schema''"
    by (simp add: getIdFromShortName_def vocab_def schemaContext_def)
  have b: "map_of schemaContext ''unit'' = None"
    by (simp add: schemaContext_def)
  have k: "''schema'' \<noteq> [] \<and> ''schema'' \<noteq> ''@context'' \<and> ''schema'' \<noteq> ''@id''"
    by simp
  have p: "getStringPatternIssues exampleDocument
             (StringValue (exampleSpan 11 21) ''urn:a:b:1'') ''schema'' = []"
    by (simp add: getStringPatternIssues_def getStringValuePattern_def matchesUrn_def
          matchesName_def isWordChar_def isDigit_def getStringValueLengthRange_def Let_def)
  note s = getStringValuesFromShortName_schema
    [of schemaContext _ 0 exampleGraph emptyCache exampleConstants exampleDocument
        "StringValue (exampleSpan 11 21) ''urn:a:b:1''" False]
  from s [of "''schema''", THEN conjunct1, rule_format, OF a, THEN conjunct1]
       s [of "''schema''", THEN conjunct1, rule_format, OF a, THEN conjunct2, rule_format, OF k]
       s [of "''unit''", THEN conjunct2, rule_format, OF b] a b p
  show ?thesis by simp
qed


text \<open>
  C5, as amended. The traversals \<open>getPropertiesFromId\<close>, \<open>getTypesFromId\<close> and
  \<open>getStringValuesFromId\<close> and the diagnostics pass \<open>getIssues\<close> return for every
  document, every id and every state of the memo tables, provided the edges that each
  traversal follows form no cycle in the graph: then one amount of fuel is enough for
  all of them. Without that condition they need not return: the traversals keep no
  record of the ids they are visiting and write the memo table only after the loop, so
  on a class that is its own subclass \<open>getPropertiesFromId\<close> calls itself without end.
\<close>

theorem traversals_and_diagnostics_terminate:
  assumes "acyclic (set (propertiesCalls g))" and "acyclic (set (typesCalls g))"
    and "acyclic (set (stringValuesCalls g))"
  shows "\<exists>N. \<forall>c i K parse document.
           (\<exists>y. getPropertiesFromId N g ctx c i = Some y) \<and>
           (\<exists>y. getTypesFromId N g ctx c i = Some y) \<and>
           (\<exists>y. getStringValuesFromId N g ctx c i = Some y) \<and>
           (\<exists>y. getIssues N K parse g ctx document c = Some y)"
proof -
  from allReturn_acyclic [OF assms] obtain N where N: "allReturn N g ctx" ..
  have "\<exists>y. getPropertiesFromId N g ctx c i = Some y" for c i
    using allReturnD(1) [OF N, of c i] by auto
  moreover have "\<exists>y. getTypesFromId N g ctx c i = Some y" for c i
    using allReturnD(2) [OF N, of c i] by auto
  moreover have "\<exists>y. getStringValuesFromId N g ctx c i = Some y" for c i
    using allReturnD(3) [OF N, of c i] by auto
  moreover have "\<exists>y. getIssues N K parse g ctx document c = Some y" for K parse document c
    using getIssues_completes [OF N, of K parse document c] by (simp add: completes_def)
  ultimately show ?thesis by blast
qed

theorem traversals_and_diagnostics_terminate_witness:
  "\<exists>N. (\<exists>y. getPropertiesFromId N exampleGraph exampleContext emptyCache ''dt:Sensor'' = Some y) \<and>
        (\<exists>y. getTypesFromId N exampleGraph exampleContext emptyCache ''dt:unit'' = Some y) \<and>
        (\<exists>y. getStringValuesFromId N exampleGraph exampleContext emptyCache ''dt:unit'' = Some y) \<and>
        (\<exists>y. getIssues N exampleConstants exampleParse exampleGraph exampleContext
               exampleDocument emptyCache = Some y)"
proof -
  have a: "acyclic (set (propertiesCalls exampleGraph))" by code_simp
  have b: "acyclic (set (typesCalls exampleGraph))" by code_simp
  have c: "acyclic (set (stringValuesCalls exampleGraph))" by code_simp
  from traversals_and_diagnostics_terminate [OF a b c, of exampleContext]
  obtain N where N: "\<forall>c i K parse document.
           (\<exists>y. getPropertiesFromId N exampleGraph exampleContext c i = Some y) \<and>
           (\<exists>y. getTypesFromId N exampleGraph exampleContext c i = Some y) \<and>
           (\<exists>y. getStringValuesFromId N exampleGraph exampleContext c i = Some y) \<and>
           (\<exists>y. getIssues N K parse exampleGraph exampleContext document c = Some y)" ..
  from N [rule_format, of emptyCache "''dt:Sensor''" exampleConstants exampleParse exampleDocument]
    N [rule_format, of emptyCache "''dt:unit''" exampleConstants exampleParse exampleDocument]
  show ?thesis by blast
qed

theorem cyclic_graph_counterexample:
  "\<not> acyclic (set (propertiesCalls cyclicGraph)) \<and>
   (\<forall>n. getPropertiesFromId n cyclicGraph exampleContext emptyCache ''dt:Loop'' = None)"
proof
  show "\<not> acyclic (set (propertiesCalls cyclicGraph))" by code_simp
  show "\<forall>n. getPropertiesFromId n cyclicGraph exampleContext emptyCache ''dt:Loop'' = None"
    by (simp add: cyclicGraph_diverges emptyCache_def)
qed


text \<open>
  C4. The first and the second call of a memoized query with the same id should return
  the same array object. \<open>getStringValuesFromId\<close> does not on an id that is the domain
  of a property and has no string values ("this is object, ignore it"): that branch
  stores one new empty array in \<open>cache.StringValuesFromId\<close> and returns another one.
  On \<open>objectGraph\<close> and an empty store the first call for \<open>dt:Telemetry\<close> returns the
  array at reference 2 and stores the array at reference 1, which the second call
  returns; the two arrays have the same contents and are different objects. Every
  other exit of the function stores and returns one and the same array.
\<close>

theorem getStringValuesFromId_object_two_arrays:
  "getStringValuesFromIdRef (Suc n) objectGraph exampleContext emptyStore ''dt:Telemetry'' =
     Some (2, objectStore) \<and>
   getStringValuesFromIdRef (Suc n) objectGraph exampleContext objectStore ''dt:Telemetry'' =
     Some (1, objectStore) \<and>
   arrayAt objectStore 2 = arrayAt objectStore 1"
  by (simp add: objectGraph_def objectStore_def emptyStore_def mkEdge_def newArray_def
        arrayAt_def concatIfRef_def cacheStringValues_def LABEL_DOMAIN_def LABEL_RANGE_def
        LABEL_SUBCLASS_def LABEL_TYPE_def)
end
